theory Spec2Isabelle
  imports Complex_Main "HOL-Library.Word" "HOL-Library.AList" "HOL-Library.List_Lexorder"
    "HOL-Library.Char_ord"
begin

section \<open>Resource algebra (package resources)\<close>

text \<open>
  Modelled from the spec: the package \<open>resources\<close>, which the scheduler files call and
  whose source is not among the files at hand. Its operations follow the specification's
  section 4.1: a resource is a finite mapping from a resource-type name to an integer
  quantity, a missing key counts as zero, and all arithmetic is componentwise.
\<close>

type_synonym Quantity = int

type_synonym Resource = "(string \<times> Quantity) list"

text \<open>Modelled from the spec: reading a quantity; a missing key is zero.\<close>

definition quantity :: "Resource \<Rightarrow> string \<Rightarrow> Quantity" where
  "quantity r k = (case map_of r k of None \<Rightarrow> 0 | Some v \<Rightarrow> v)"

text \<open>Modelled from the spec: \<open>resources.NewResource()\<close> and \<open>resources.Zero\<close>, the
  resource with no key.\<close>

definition NewResource :: Resource where
  "NewResource = []"

definition Zero :: Resource where
  "Zero = []"

text \<open>Modelled from the spec: componentwise arithmetic. The result has the keys of the
  left operand, then the new ones of the right operand.\<close>

definition keys2 :: "Resource \<Rightarrow> Resource \<Rightarrow> string list" where
  "keys2 a b = remdups (map fst a @ map fst b)"

definition componentwise :: "(Quantity \<Rightarrow> Quantity \<Rightarrow> Quantity) \<Rightarrow> Resource \<Rightarrow> Resource \<Rightarrow> Resource" where
  "componentwise f a b = map (\<lambda>k. (k, f (quantity a k) (quantity b k))) (keys2 a b)"

text \<open>Modelled from the spec: \<open>add\<close> and \<open>sub\<close>, componentwise; \<open>sub\<close> has no lower
  bound.\<close>

definition Add :: "Resource \<Rightarrow> Resource \<Rightarrow> Resource" where
  "Add a b = componentwise (\<lambda>x y. x + y) a b"

definition Sub :: "Resource \<Rightarrow> Resource \<Rightarrow> Resource" where
  "Sub a b = componentwise (\<lambda>x y. x - y) a b"

text \<open>Modelled from the spec: \<open>sub-eliminate-negative\<close>, componentwise max with 0 after
  the subtraction.\<close>

definition SubEliminateNegative :: "Resource \<Rightarrow> Resource \<Rightarrow> Resource" where
  "SubEliminateNegative a b = componentwise (\<lambda>x y. max 0 (x - y)) a b"

text \<open>Modelled from the spec: \<open>componentwise-max\<close>.\<close>

definition ComponentWiseMax :: "Resource \<Rightarrow> Resource \<Rightarrow> Resource" where
  "ComponentWiseMax a b = componentwise max a b"

text \<open>Modelled from the spec: \<open>is-zero\<close>; keys bound to zero are ignored.\<close>

definition IsZero :: "Resource \<Rightarrow> bool" where
  "IsZero r = list_all (\<lambda>k. quantity r k = 0) (map fst r)"

text \<open>Modelled from the spec: \<open>strictly-greater-than-zero\<close>, any component above 0.\<close>

definition StrictlyGreaterThanZero :: "Resource \<Rightarrow> bool" where
  "StrictlyGreaterThanZero r = list_ex (\<lambda>k. 0 < quantity r k) (map fst r)"

text \<open>Modelled from the spec: \<open>strictly-greater-than\<close>, all components at least as large
  and one of them larger.\<close>

definition StrictlyGreaterThan :: "Resource \<Rightarrow> Resource \<Rightarrow> bool" where
  "StrictlyGreaterThan larger smaller =
     (list_all (\<lambda>k. quantity smaller k \<le> quantity larger k) (keys2 larger smaller) \<and>
      list_ex (\<lambda>k. quantity smaller k < quantity larger k) (keys2 larger smaller))"

text \<open>Modelled from the spec: the comparison \<open>\<ge>\<close> of section 4.6 ("cumulative victim
  resource \<ge> toPreempt"), all components at least as large.\<close>

definition StrictlyGreaterThanOrEquals :: "Resource \<Rightarrow> Resource \<Rightarrow> bool" where
  "StrictlyGreaterThanOrEquals larger smaller =
     list_all (\<lambda>k. quantity smaller k \<le> quantity larger k) (keys2 larger smaller)"

section \<open>Allocation asks\<close>

text \<open>\<open>SchedulingAllocationAsk\<close>: the counters are \<open>int32\<close>, so they are 32-bit words read
  as two's complement.\<close>

type_synonym int32 = "32 word"

record SchedulingAllocationAsk =
  AskAllocationKey :: string
  AllocatedResource :: Resource
  PendingRepeatAsk :: int32
  ApplicationId :: string
  PartitionName :: string
  NormalizedPriority :: int32
  QueueName :: string

text \<open>\<open>AddPendingAskRepeat\<close> returns its boolean and the ask after the call. The sum is
  the 32-bit sum of Go, which wraps around.\<close>

definition AddPendingAskRepeat :: "SchedulingAllocationAsk \<Rightarrow> int32 \<Rightarrow> bool \<times> SchedulingAllocationAsk" where
  "AddPendingAskRepeat m delta =
     (if 0 \<le> sint (PendingRepeatAsk m + delta)
      then (True, m\<lparr>PendingRepeatAsk := PendingRepeatAsk m + delta\<rparr>)
      else (False, m))"

text \<open>An ask whose pending counter is \<open>n\<close>, used to run the operation on concrete values.\<close>

definition ask_with :: "int32 \<Rightarrow> SchedulingAllocationAsk" where
  "ask_with n = \<lparr>AskAllocationKey = ''alloc-1'', AllocatedResource = [(''memory'', 100)],
     PendingRepeatAsk = n, ApplicationId = ''app-1'', PartitionName = ''default'',
     NormalizedPriority = 0, QueueName = ''root.a''\<rparr>"

section \<open>Scheduling queues\<close>

datatype SortType = FairSortPolicy | FifoSortPolicy | MaxAvailableResources

text \<open>
  Modelled from the spec: \<open>cache.QueueInfo\<close>, declared in the package \<open>cache\<close>, which is
  not among the files at hand. A queue of the cache has a path, properties, the managed
  flag, a status among Running, Draining and Stopped, a guaranteed resource and children
  keyed by their leaf name. The scheduling queue reads it through the methods below; a
  method that only returns a stored value is a field here.
\<close>

datatype QueueState = Running | Draining | Stopped

datatype QueueInfo = QueueInfo
  (GetQueuePath: string)
  (Properties: "(string \<times> string) list")
  (IsManaged: bool)
  (GetState: QueueState)
  (IsLeafQueue: bool)
  (GuaranteedResource: Resource)
  (GetCopyOfChildren: "(string \<times> QueueInfo) list")

definition IsRunning :: "QueueInfo \<Rightarrow> bool" where
  "IsRunning qi = (GetState qi = Running)"

definition IsDraining :: "QueueInfo \<Rightarrow> bool" where
  "IsDraining qi = (GetState qi = Draining)"

definition IsStopped :: "QueueInfo \<Rightarrow> bool" where
  "IsStopped qi = (GetState qi = Stopped)"

text \<open>Modelled from the spec: \<open>cache.DOT\<close>, the separator of the dot-separated queue
  paths.\<close>

definition DOT :: string where
  "DOT = ''.''"

text \<open>
  A \<open>*SchedulingQueue\<close> is an address; the queues live in a store from addresses to
  structs, so that a queue and its parent's view of it are the same object. The maps of
  the struct are association lists with one entry per key.
\<close>

type_synonym qref = nat

record SchedulingQueue =
  Name :: string
  CachedQueueInfo :: QueueInfo
  ProposingResource :: Resource
  ApplicationSortType :: SortType
  QueueSortType :: SortType
  childrenQueues :: "(string \<times> qref) list"
  applications :: "(string \<times> nat) list"
  parent :: "qref option"
  allocatingResource :: Resource
  pendingResource :: Resource

type_synonym queues = "qref \<Rightarrow> SchedulingQueue option"

text \<open>\<open>strings.HasPrefix\<close> and \<open>strings.LastIndex\<close> of the Go library; \<open>LastIndex\<close> is the
  index of the last occurrence, or \<open>-1\<close>.\<close>

definition HasPrefix :: "string \<Rightarrow> string \<Rightarrow> bool" where
  "HasPrefix s pre = (take (length pre) s = pre)"

fun LastIndex_from :: "string \<Rightarrow> string \<Rightarrow> nat \<Rightarrow> int" where
  "LastIndex_from s substr 0 = (if HasPrefix s substr then 0 else - 1)"
| "LastIndex_from s substr (Suc i) =
     (if HasPrefix (drop (Suc i) s) substr then int (Suc i) else LastIndex_from s substr i)"

definition LastIndex :: "string \<Rightarrow> string \<Rightarrow> int" where
  "LastIndex s substr =
     (if length s < length substr then - 1 else LastIndex_from s substr (length s - length substr))"

text \<open>\<open>updateSchedulingQueueProperties\<close>. The key \<open>cache.ApplicationSortPolicy\<close> is a
  constant of the package \<open>cache\<close>; it is the parameter \<open>sortKey\<close>.\<close>

definition updateSchedulingQueueProperties ::
  "string \<Rightarrow> (string \<times> string) list \<Rightarrow> SchedulingQueue \<Rightarrow> SchedulingQueue" where
  "updateSchedulingQueueProperties sortKey prop sq =
     fold (\<lambda>(key, value) q.
             if key = sortKey \<and> value = ''fair'' then q\<lparr>ApplicationSortType := FairSortPolicy\<rparr> else q)
          prop
          (sq\<lparr>ApplicationSortType := FifoSortPolicy, QueueSortType := FairSortPolicy\<rparr>)"

text \<open>A write through a pointer. Go pointers that are not nil always point to a struct,
  so the case of an address without a struct does not arise in the program.\<close>

definition modify :: "queues \<Rightarrow> qref \<Rightarrow> (SchedulingQueue \<Rightarrow> SchedulingQueue) \<Rightarrow> queues" where
  "modify h r f = (case h r of None \<Rightarrow> h | Some q \<Rightarrow> h(r \<mapsto> f q))"

lemma children_smaller:
  "Suc (2 * size_list (size_prod (\<lambda>_. 0) size) (GetCopyOfChildren ci)) < 2 * size ci"
  by (cases ci) simp

text \<open>
  \<open>NewSchedulingQueueInfo\<close> allocates the struct at the next free address, registers it
  in the parent under the part of its path after the last dot, and builds the children
  from the cached copy. The second function is the loop over the cached children, in the
  order the map iteration yields them. The fields the constructor does not set
  (\<open>allocatingResource\<close>) are the empty resource.
\<close>

function NewSchedulingQueueInfo ::
    "string \<Rightarrow> QueueInfo \<Rightarrow> qref option \<Rightarrow> queues \<times> nat \<Rightarrow> qref \<times> queues \<times> nat"
  and NewSchedulingQueueInfo_children ::
    "string \<Rightarrow> (string \<times> QueueInfo) list \<Rightarrow> qref \<Rightarrow> queues \<times> nat \<Rightarrow> queues \<times> nat"
where
  "NewSchedulingQueueInfo sortKey cacheQueueInfo parent0 (h, free) =
     (let sq = free;
          new = \<lparr>Name = GetQueuePath cacheQueueInfo,
                 CachedQueueInfo = cacheQueueInfo,
                 ProposingResource = NewResource,
                 ApplicationSortType = FairSortPolicy,
                 QueueSortType = FairSortPolicy,
                 childrenQueues = [],
                 applications = [],
                 parent = parent0,
                 allocatingResource = NewResource,
                 pendingResource = NewResource\<rparr>;
          h1 = h(sq \<mapsto> new);
          h2 = (case parent0 of
                  None \<Rightarrow> h1
                | Some p \<Rightarrow>
                    (let name = drop (nat (LastIndex (Name new) DOT + 1)) (Name new)
                     in modify h1 p (\<lambda>q. q\<lparr>childrenQueues := AList.update name sq (childrenQueues q)\<rparr>)));
          h3 = modify h2 sq (updateSchedulingQueueProperties sortKey (Properties cacheQueueInfo));
          (h4, free') = NewSchedulingQueueInfo_children sortKey (GetCopyOfChildren cacheQueueInfo) sq (h3, Suc free)
      in (sq, h4, free'))"
| "NewSchedulingQueueInfo_children sortKey [] sq st = st"
| "NewSchedulingQueueInfo_children sortKey ((childName, childQueue) # rest) sq st =
     (let (newChildQueue, h, free) = NewSchedulingQueueInfo sortKey childQueue (Some sq) st;
          h' = modify h sq (\<lambda>q. q\<lparr>childrenQueues := AList.update childName newChildQueue (childrenQueues q)\<rparr>)
      in NewSchedulingQueueInfo_children sortKey rest sq (h', free))"
  by pat_completeness auto
termination
  by (relation "measure (\<lambda>x. case x of
        Inl (_, ci, _, _) \<Rightarrow> 2 * size ci
      | Inr (_, cs, _, _) \<Rightarrow> 2 * size_list (size_prod (\<lambda>_. 0) size) cs + 1)")
     (auto simp: children_smaller)

definition isManaged :: "SchedulingQueue \<Rightarrow> bool" where
  "isManaged sq = IsManaged (CachedQueueInfo sq)"

definition isRunning :: "SchedulingQueue \<Rightarrow> bool" where
  "isRunning sq = IsRunning (CachedQueueInfo sq)"

definition isRoot :: "SchedulingQueue \<Rightarrow> bool" where
  "isRoot sq = (parent sq = None)"

text \<open>
  The methods below take the store and the receiver's address. \<open>None\<close> is a call that
  does not return: a method called on a nil receiver panics when it takes the lock, and
  \<open>IncPendingResource\<close> on a parent chain that comes back to a queue whose lock is held
  waits forever.
\<close>

definition removeChildQueue :: "queues \<Rightarrow> qref \<Rightarrow> string \<Rightarrow> queues option" where
  "removeChildQueue h sq name =
     (case h sq of
        None \<Rightarrow> None
      | Some q \<Rightarrow> Some (h(sq \<mapsto> q\<lparr>childrenQueues := AList.delete name (childrenQueues q)\<rparr>)))"

definition RemoveQueue :: "queues \<Rightarrow> qref \<Rightarrow> (bool \<times> queues) option" where
  "RemoveQueue h sq =
     (case h sq of
        None \<Rightarrow> None
      | Some q \<Rightarrow>
          if isManaged q \<and> isRunning q then Some (False, h)
          else if 0 < length (childrenQueues q) \<or> 0 < length (applications q) then Some (False, h)
          else (case parent q of
                  None \<Rightarrow> None
                | Some p \<Rightarrow> map_option (Pair True) (removeChildQueue h p (Name q))))"

partial_function (option) IncPendingResource :: "queues \<Rightarrow> qref \<Rightarrow> Resource \<Rightarrow> queues option" where
  "IncPendingResource h sq delta =
     (case h sq of
        None \<Rightarrow> None
      | Some q \<Rightarrow>
          Option.bind (case parent q of None \<Rightarrow> Some h | Some p \<Rightarrow> IncPendingResource h p delta)
            (\<lambda>h'. case h' sq of
                    None \<Rightarrow> None
                  | Some q' \<Rightarrow> Some (h'(sq \<mapsto> q'\<lparr>pendingResource := Add (pendingResource q') delta\<rparr>))))"

partial_function (option) DecPendingResource :: "queues \<Rightarrow> qref \<Rightarrow> Resource \<Rightarrow> queues option" where
  "DecPendingResource h sq delta =
     (case h sq of
        None \<Rightarrow> None
      | Some q \<Rightarrow>
          Option.bind (case parent q of None \<Rightarrow> Some h | Some p \<Rightarrow> DecPendingResource h p delta)
            (\<lambda>h'. case h' sq of
                    None \<Rightarrow> None
                  | Some q' \<Rightarrow> Some (h'(sq \<mapsto> q'\<lparr>pendingResource := Sub (pendingResource q') delta\<rparr>))))"

text \<open>A sequence of calls of the two methods.\<close>

datatype pending_op = Inc qref Resource | Dec qref Resource

fun apply_pending_ops :: "queues \<Rightarrow> pending_op list \<Rightarrow> queues option" where
  "apply_pending_ops h [] = Some h"
| "apply_pending_ops h (Inc sq delta # ops) =
     (case IncPendingResource h sq delta of None \<Rightarrow> None | Some h' \<Rightarrow> apply_pending_ops h' ops)"
| "apply_pending_ops h (Dec sq delta # ops) =
     (case DecPendingResource h sq delta of None \<Rightarrow> None | Some h' \<Rightarrow> apply_pending_ops h' ops)"

text \<open>\<open>ancestry h sq qs\<close>: following the parent pointers from \<open>sq\<close> reaches the root (the
  queue without parent), and \<open>qs\<close> lists the queues met, \<open>sq\<close> first and the root last.\<close>

inductive ancestry :: "queues \<Rightarrow> qref \<Rightarrow> qref list \<Rightarrow> bool" for h :: queues where
  ancestry_root: "h sq = Some q \<Longrightarrow> parent q = None \<Longrightarrow> ancestry h sq [sq]"
| ancestry_step: "h sq = Some q \<Longrightarrow> parent q = Some p \<Longrightarrow> ancestry h p ps \<Longrightarrow> ancestry h sq (sq # ps)"

text \<open>The store in which the pending resource of the queues of \<open>S\<close> went through \<open>f\<close>.\<close>

definition credit :: "(Resource \<Rightarrow> Resource) \<Rightarrow> qref set \<Rightarrow> queues \<Rightarrow> queues" where
  "credit f S h = (\<lambda>r. if r \<in> S then map_option (\<lambda>q. q\<lparr>pendingResource := f (pendingResource q)\<rparr>) (h r) else h r)"

text \<open>
  A partition with the root queue and one dynamic leaf \<open>root.a\<close>: the cached queues, and
  the scheduling queues that \<open>NewSchedulingQueueInfo\<close> builds from them, the root at
  address 0 and the leaf at address 1.
\<close>

definition cache_a :: QueueInfo where
  "cache_a = QueueInfo ''root.a'' [] False Running True [] []"

definition cache_root :: QueueInfo where
  "cache_root = QueueInfo ''root'' [] True Running False [] [(''a'', cache_a)]"

definition example_queues :: queues where
  "example_queues = fst (snd (NewSchedulingQueueInfo ''application.sort.policy'' cache_root None (Map.empty, 0)))"

definition example_root :: SchedulingQueue where
  "example_root = \<lparr>Name = ''root'', CachedQueueInfo = cache_root, ProposingResource = [],
     ApplicationSortType = FifoSortPolicy, QueueSortType = FairSortPolicy,
     childrenQueues = [(''a'', 1)], applications = [], parent = None,
     allocatingResource = [], pendingResource = []\<rparr>"

definition example_a :: SchedulingQueue where
  "example_a = \<lparr>Name = ''root.a'', CachedQueueInfo = cache_a, ProposingResource = [],
     ApplicationSortType = FifoSortPolicy, QueueSortType = FairSortPolicy,
     childrenQueues = [], applications = [], parent = Some 0,
     allocatingResource = [], pendingResource = []\<rparr>"

section \<open>Fairness comparison and sorting\<close>

text \<open>
  Modelled from the spec: \<open>resources.CompFairnessRatio\<close>. The fairness ratio of a used
  resource against a capacity is the largest share \<open>used[k] / cap[k]\<close>, the dominant
  share; two pairs are compared by their dominant shares, with the result -1, 0 or 1,
  and equal dominant shares are told apart by the shares taken in the order of the
  sorted keys, compared lexicographically. The shares are rational numbers. The spec
  gives no share for a capacity of zero; the division of HOL then yields 0, and no
  statement below rests on that case.
\<close>

definition share :: "Resource \<Rightarrow> Resource \<Rightarrow> string \<Rightarrow> rat" where
  "share used cap k = of_int (quantity used k) / of_int (quantity cap k)"

fun dominant :: "rat list \<Rightarrow> rat" where
  "dominant [] = 0"
| "dominant (x # xs) = fold max xs x"

definition CompFairnessRatio :: "Resource \<Rightarrow> Resource \<Rightarrow> Resource \<Rightarrow> Resource \<Rightarrow> int" where
  "CompFairnessRatio lused lcap rused rcap =
     (let ks = sort (keys2 lused rused);
          ls = map (share lused lcap) ks;
          rs = map (share rused rcap) ks
      in if dominant ls < dominant rs then - 1
         else if dominant rs < dominant ls then 1
         else if ls < rs then - 1
         else if rs < ls then 1
         else 0)"

text \<open>Modelled from the spec: \<open>resources.Comp\<close>, the fairness comparison of two resources
  against the same capacity, the total of the partition.\<close>

definition Comp :: "Resource \<Rightarrow> Resource \<Rightarrow> Resource \<Rightarrow> int" where
  "Comp cap left right = CompFairnessRatio left cap right cap"

text \<open>
  \<open>sort.SliceStable\<close> of the Go library with the comparison \<open>lt\<close>, after the library's
  \<open>stable\<close>: the slice is cut into blocks of 20 elements, each block is sorted by
  \<open>insertionSort\<close>, and the blocks are merged pairwise by \<open>symMerge\<close>, with the block size
  doubling, until one block is left. The slice is a list and an index reads it with
  \<open>!\<close>; every index below is inside the slice.

  \<open>insertionSort\<close> on the range from \<open>a\<close> to \<open>b\<close>: each element in turn moves left while it
  is less than its left neighbour. \<open>sift\<close> is that inner loop on the reversed prefix.
\<close>

fun sift :: "('a \<Rightarrow> 'a \<Rightarrow> bool) \<Rightarrow> 'a \<Rightarrow> 'a list \<Rightarrow> 'a list" where
  "sift lt x [] = [x]"
| "sift lt x (y # ys) = (if lt x y then y # sift lt x ys else x # y # ys)"

definition insertionSort :: "('a \<Rightarrow> 'a \<Rightarrow> bool) \<Rightarrow> 'a list \<Rightarrow> nat \<Rightarrow> nat \<Rightarrow> 'a list" where
  "insertionSort lt data a b =
     take a data @ rev (fold (sift lt) (take (b - a) (drop a data)) []) @ drop b data"

text \<open>The library's \<open>rotate\<close>: the neighbouring blocks from \<open>a\<close> to \<open>m\<close> and from \<open>m\<close> to \<open>b\<close>
  change places. The two loops of swaps in \<open>symMerge\<close> that carry one element across a
  block are such rotations as well.\<close>

definition rotate_blocks :: "'a list \<Rightarrow> nat \<Rightarrow> nat \<Rightarrow> nat \<Rightarrow> 'a list" where
  "rotate_blocks data a m b =
     take a data @ take (b - m) (drop m data) @ take (m - a) (drop a data) @ drop b data"

text \<open>The binary searches of \<open>symMerge\<close>: \<open>for i < j\<close>, with the middle \<open>h\<close>, the search goes on
  in the right half when the test \<open>right h\<close> holds and in the left half otherwise.\<close>

function search :: "(nat \<Rightarrow> bool) \<Rightarrow> nat \<Rightarrow> nat \<Rightarrow> nat" where
  "search right i j =
     (if i < j
      then (let h = (i + j) div 2 in if right h then search right (h + 1) j else search right i h)
      else i)"
  by pat_completeness auto
termination
  by (relation "measure (\<lambda>(right, i, j). j - i)") auto

declare search.simps [simp del]

text \<open>The library's \<open>symMerge\<close>, which merges the sorted ranges from \<open>a\<close> to \<open>m\<close> and from
  \<open>m\<close> to \<open>b\<close>: a range of one element is inserted into the other range by a binary
  search; otherwise a binary search finds where to rotate, and the two halves are merged
  in turn.\<close>

function symMerge :: "('a \<Rightarrow> 'a \<Rightarrow> bool) \<Rightarrow> 'a list \<Rightarrow> nat \<Rightarrow> nat \<Rightarrow> nat \<Rightarrow> 'a list" where
  "symMerge lt data a m b =
     (if int m - int a = 1
      then (let i = search (\<lambda>h. lt (data ! h) (data ! a)) m b
            in rotate_blocks data a (a + 1) i)
      else if int b - int m = 1
      then (let i = search (\<lambda>h. \<not> lt (data ! m) (data ! h)) a m
            in rotate_blocks data i m (m + 1))
      else
        (let mid = (a + b) div 2;
             n = mid + m;
             start0 = (if m > mid then n - b else a);
             r = (if m > mid then mid else m);
             p = n - 1;
             start = search (\<lambda>c. \<not> lt (data ! (p - c)) (data ! c)) start0 r;
             end0 = n - start;
             data1 = (if start < m \<and> m < end0 then rotate_blocks data start m end0 else data);
             data2 = (if a < start \<and> start < mid then symMerge lt data1 a start mid else data1)
         in if mid < end0 \<and> end0 < b then symMerge lt data2 mid end0 b else data2))"
  by pat_completeness auto
termination
proof (relation "measure (\<lambda>(lt, data, a, m, b). b - a)", goal_cases)
  case 1
  show ?case by simp
next
  case (2 lt data a m b x xa xb xc xd xe xba xaa)
  from 2(3,11) have "x - a < b - a" by arith
  then show ?case by simp
next
  case (3 lt data a m b x xa xb xc xd xe xba xaa xab)
  from 3(3,12) have "b - x < b - a" by arith
  then show ?case by simp
qed

declare symMerge.simps [simp del]

text \<open>The two loops of \<open>stable\<close>: the insertion sort of the blocks, and one pass of merges
  of neighbouring blocks of size \<open>blockSize\<close>. The block size is 20 or more; the case 0
  is there for the functions to be total.\<close>

function insertion_blocks :: "('a \<Rightarrow> 'a \<Rightarrow> bool) \<Rightarrow> 'a list \<Rightarrow> nat \<Rightarrow> nat \<Rightarrow> nat \<Rightarrow> nat \<Rightarrow> 'a list" where
  "insertion_blocks lt data blockSize a b n =
     (if blockSize = 0 then data
      else if b \<le> n
      then insertion_blocks lt (insertionSort lt data a b) blockSize b (b + blockSize) n
      else insertionSort lt data a n)"
  by pat_completeness auto
termination
  by (relation "measure (\<lambda>(lt, data, blockSize, a, b, n). Suc n - b)") auto

declare insertion_blocks.simps [simp del]

function merge_blocks :: "('a \<Rightarrow> 'a \<Rightarrow> bool) \<Rightarrow> 'a list \<Rightarrow> nat \<Rightarrow> nat \<Rightarrow> nat \<Rightarrow> nat \<Rightarrow> 'a list" where
  "merge_blocks lt data blockSize a b n =
     (if blockSize = 0 then data
      else if b \<le> n
      then merge_blocks lt (symMerge lt data a (a + blockSize) b) blockSize b (b + 2 * blockSize) n
      else (let m = a + blockSize in if m < n then symMerge lt data a m n else data))"
  by pat_completeness auto
termination
  by (relation "measure (\<lambda>(lt, data, blockSize, a, b, n). Suc n - b)") auto

declare merge_blocks.simps [simp del]

function merge_passes :: "('a \<Rightarrow> 'a \<Rightarrow> bool) \<Rightarrow> 'a list \<Rightarrow> nat \<Rightarrow> nat \<Rightarrow> 'a list" where
  "merge_passes lt data blockSize n =
     (if blockSize = 0 then data
      else if blockSize < n
      then merge_passes lt (merge_blocks lt data blockSize 0 (2 * blockSize) n) (blockSize * 2) n
      else data)"
  by pat_completeness auto
termination
  by (relation "measure (\<lambda>(lt, data, blockSize, n). n - blockSize)") auto

declare merge_passes.simps [simp del]

definition stable :: "('a \<Rightarrow> 'a \<Rightarrow> bool) \<Rightarrow> 'a list \<Rightarrow> nat \<Rightarrow> 'a list" where
  "stable lt data n = merge_passes lt (insertion_blocks lt data 20 0 20 n) 20 n"

definition SliceStable :: "('a \<Rightarrow> 'a \<Rightarrow> bool) \<Rightarrow> 'a list \<Rightarrow> 'a list" where
  "SliceStable lt xs = stable lt xs (length xs)"

text \<open>\<open>SortQueue\<close>. The slice holds pointers and the sort only reads the queues, so the
  model sorts the structs. The fourth argument of the comparison is the guaranteed
  resource of \<open>l\<close>, as in the source.\<close>

definition SortQueue :: "SchedulingQueue list \<Rightarrow> SortType \<Rightarrow> SchedulingQueue list" where
  "SortQueue queues sortType =
     (if sortType = FairSortPolicy
      then SliceStable
             (\<lambda>l r. CompFairnessRatio (ProposingResource l) (GuaranteedResource (CachedQueueInfo l))
                                       (ProposingResource r) (GuaranteedResource (CachedQueueInfo l)) < 0)
             queues
      else queues)"

text \<open>A leaf queue with a proposing and a guaranteed amount of memory.\<close>

definition leaf_queue :: "string \<Rightarrow> int \<Rightarrow> int \<Rightarrow> SchedulingQueue" where
  "leaf_queue path proposing guaranteed =
     \<lparr>Name = path,
      CachedQueueInfo = QueueInfo path [] True Running True [(''memory'', guaranteed)] [],
      ProposingResource = [(''memory'', proposing)],
      ApplicationSortType = FifoSortPolicy, QueueSortType = FairSortPolicy,
      childrenQueues = [], applications = [], parent = Some 0,
      allocatingResource = [], pendingResource = []\<rparr>"

section \<open>Placement: the fixed rule\<close>

text \<open>
  Modelled from the spec: the types of the packages \<open>security\<close>, \<open>cache\<close> and \<open>configs\<close> that
  the rule reads and that are not among the files at hand. An application carries its
  submitting user; \<open>info.GetQueue\<close> maps a queue path to the queue or nil, so a partition
  is that lookup; the root queue is named \<open>root\<close>.
\<close>

record UserGroup =
  User :: string
  Groups :: "string list"

record ApplicationInfo =
  AppId :: string
  AppQueueName :: string
  GetUser :: UserGroup

type_synonym PartitionInfo = "string \<Rightarrow> QueueInfo option"

definition RootQueue :: string where
  "RootQueue = ''root''"

text \<open>
  A Go \<open>error\<close> is its message, nil is \<open>None\<close>. A placement is the pair that
  \<open>placeApplication\<close> returns; the outer \<open>None\<close> is a panic. A rule of the interface \<open>rule\<close>
  is its method \<open>placeApplication\<close>.
\<close>

type_synonym error = string

type_synonym placement = "(string \<times> error option) option"

type_synonym rule = "ApplicationInfo \<Rightarrow> PartitionInfo \<Rightarrow> placement"

text \<open>\<open>fixedRule\<close> with the fields of the embedded \<open>basicRule\<close>. \<open>allowUser\<close> is the method of
  the rule's filter, whose source is not at hand. The field \<open>qualified\<close> is \<open>isQualified\<close>.\<close>

record fixedRule =
  create :: bool
  rule_parent :: "rule option"
  allowUser :: "UserGroup \<Rightarrow> bool"
  queue :: string
  isQualified :: bool

text \<open>The end of \<open>placeApplication\<close>: a queue that does not exist is returned only with the
  create flag.\<close>

definition place_queue :: "fixedRule \<Rightarrow> PartitionInfo \<Rightarrow> string \<Rightarrow> placement" where
  "place_queue fr info queueName =
     (if \<not> create fr \<and> info queueName = None then Some ('''', None) else Some (queueName, None))"

text \<open>The lines after the parent rule: an empty parent name is the root.\<close>

definition place_under :: "fixedRule \<Rightarrow> PartitionInfo \<Rightarrow> string \<Rightarrow> placement" where
  "place_under fr info parentName =
     (let parentName' = (if parentName = '''' then RootQueue else parentName)
      in place_queue fr info (parentName' @ DOT @ queue fr))"

text \<open>\<open>placeApplication\<close>. \<open>info.GetQueue(parentName).IsLeafQueue()\<close> on a queue that does
  not exist is a method call on nil, which is a panic here.\<close>

definition placeApplication :: "fixedRule \<Rightarrow> ApplicationInfo \<Rightarrow> PartitionInfo \<Rightarrow> placement" where
  "placeApplication fr app info =
     (if \<not> allowUser fr (GetUser app) then Some ('''', None)
      else if isQualified fr then place_queue fr info (queue fr)
      else
        (case rule_parent fr of
           None \<Rightarrow> place_under fr info ''''
         | Some pr \<Rightarrow>
             (case pr app info of
                None \<Rightarrow> None
              | Some (parentName, err) \<Rightarrow>
                  if err \<noteq> None then Some ('''', err)
                  else if parentName = '''' then Some ('''', None)
                  else
                    (let parentName' =
                           (if \<not> HasPrefix parentName (RootQueue @ DOT)
                            then RootQueue @ DOT @ parentName else parentName)
                     in case info parentName' of
                          None \<Rightarrow> None
                        | Some q \<Rightarrow>
                            if IsLeafQueue q
                            then Some ('''', Some (''parent rule returned a leaf queue: '' @ parentName'))
                            else place_under fr info parentName'))))"










section \<open>Preemption\<close>

text \<open>
  Modelled from the spec: \<open>preemptionQueueContext\<close>, declared in a file of the package that
  is not at hand. Per queue the preemption engine knows the path, the parent context,
  the max resource, the resource marked as preempted, the preemptable resource and,
  through the scheduling queue, the allocating resource (section 4.6: headroom = max -
  allocating + markedPreempted). The contexts are only read by the functions below,
  so a pointer to a context is the context, and the parent chain is finite.
\<close>

datatype preemptionQueueContext = preemptionQueueContext
  (queuePath: string)
  (pqc_parent: "preemptionQueueContext option")
  (pqc_max: Resource)
  (markedPreemptedResource: Resource)
  (preemptable: Resource)
  (GetAllocatingResource: Resource)

text \<open>The map \<open>map[string]*resources.Resource\<close> of the headroom shortages, with one entry
  per key.\<close>

type_synonym shortages = "(string \<times> Resource) list"

lemma pqc_parent_smaller: "size_option size (pqc_parent cur) < Suc (size cur)"
  by (cases cur) simp

text \<open>The loop \<open>for cur != nil\<close> of \<open>headroomShortageUpdate\<close>, with the map and the flag
  \<open>positiveContribution\<close> as they stand.\<close>

function headroomShortageUpdate_loop ::
  "preemptionQueueContext option \<Rightarrow> Resource \<Rightarrow> shortages \<Rightarrow> bool \<Rightarrow> bool \<times> shortages" where
  "headroomShortageUpdate_loop None allocationResource queueHeadroomShortages positiveContribution =
     (positiveContribution, queueHeadroomShortages)"
| "headroomShortageUpdate_loop (Some cur) allocationResource queueHeadroomShortages positiveContribution =
     (case map_of queueHeadroomShortages (queuePath cur) of
        None \<Rightarrow>
          headroomShortageUpdate_loop (pqc_parent cur) allocationResource queueHeadroomShortages
            positiveContribution
      | Some headroomShortage \<Rightarrow>
          (let newHeadroomShortage = SubEliminateNegative headroomShortage allocationResource
           in if StrictlyGreaterThan headroomShortage newHeadroomShortage
              then headroomShortageUpdate_loop (pqc_parent cur) allocationResource
                     (if StrictlyGreaterThanZero newHeadroomShortage
                      then AList.update (queuePath cur) newHeadroomShortage queueHeadroomShortages
                      else AList.delete (queuePath cur) queueHeadroomShortages)
                     True
              else headroomShortageUpdate_loop (pqc_parent cur) allocationResource
                     queueHeadroomShortages positiveContribution))"
  by pat_completeness auto
termination
  by (relation "measure (\<lambda>(cur, _, _, _). size_option size cur)") (auto simp: pqc_parent_smaller)

text \<open>\<open>headroomShortageUpdate\<close> returns its boolean and the map after the call.\<close>

definition headroomShortageUpdate ::
  "preemptionQueueContext \<Rightarrow> preemptionQueueContext option \<Rightarrow> Resource \<Rightarrow> shortages \<Rightarrow> bool \<times> shortages" where
  "headroomShortageUpdate preemptor preemptee allocationResource queueHeadroomShortages =
     (if length queueHeadroomShortages = 0 then (False, queueHeadroomShortages)
      else headroomShortageUpdate_loop preemptee allocationResource queueHeadroomShortages False)"

text \<open>The headroom of a queue as \<open>initHeadroomShortages\<close> computes it: \<open>resources.Sub\<close> of max
  and allocating, then \<open>resources.AddTo\<close> with the marked resource.\<close>

definition headroom :: "preemptionQueueContext \<Rightarrow> Resource" where
  "headroom cur = Add (Sub (pqc_max cur) (GetAllocatingResource cur)) (markedPreemptedResource cur)"

function initHeadroomShortages_loop ::
  "preemptionQueueContext option \<Rightarrow> Resource \<Rightarrow> shortages \<Rightarrow> shortages" where
  "initHeadroomShortages_loop None allocatedResource headroomShortages = headroomShortages"
| "initHeadroomShortages_loop (Some cur) allocatedResource headroomShortages =
     (let headroomShortage = SubEliminateNegative allocatedResource (headroom cur)
      in initHeadroomShortages_loop (pqc_parent cur) allocatedResource
           (if StrictlyGreaterThanZero headroomShortage
            then AList.update (queuePath cur) headroomShortage headroomShortages
            else headroomShortages))"
  by pat_completeness auto
termination
  by (relation "measure (\<lambda>(cur, _, _). size_option size cur)") (auto simp: pqc_parent_smaller)

definition initHeadroomShortages :: "preemptionQueueContext option \<Rightarrow> Resource \<Rightarrow> shortages" where
  "initHeadroomShortages preemptorQueue allocatedResource =
     initHeadroomShortages_loop preemptorQueue allocatedResource []"

text \<open>The queues on the chain from a queue up to the root, the queue first.\<close>

function ancestors :: "preemptionQueueContext option \<Rightarrow> preemptionQueueContext list" where
  "ancestors None = []"
| "ancestors (Some cur) = cur # ancestors (pqc_parent cur)"
  by pat_completeness auto
termination
  by (relation "measure (size_option size)") (auto simp: pqc_parent_smaller)

text \<open>
  Modelled from the spec: the allocation of the cache, the scheduling node and the
  partition context of the preemption engine, declared in files that are not at hand,
  with the fields that the functions below read. \<open>GetAllAllocations\<close> is the list that
  \<open>node.NodeInfo.GetAllAllocations()\<close> returns, in the order it returns it.
\<close>

record AllocationInfo =
  AllocationUuid :: string
  AllocationQueueName :: string
  AllocationApplicationId :: string
  AllocationResource :: Resource

record SchedulingNode =
  NodeId :: string
  AllocatingResource :: Resource
  PreemptingResource :: Resource
  CachedAvailableResource :: Resource
  GetAllAllocations :: "AllocationInfo list"

record preemptionPartitionContext =
  leafQueues :: "string \<Rightarrow> preemptionQueueContext option"
  partitionTotalResource :: Resource

text \<open>The method \<open>node.CheckAndAllocateResource\<close> is not at hand and is a parameter: from the
  node, the resource and the preemption-phase flag to its boolean and the node after
  the call.\<close>

type_synonym node_check = "SchedulingNode \<Rightarrow> Resource \<Rightarrow> bool \<Rightarrow> bool \<times> SchedulingNode"

record singleNodePreemptResult =
  node :: SchedulingNode
  toReleaseAllocations :: "(string \<times> AllocationInfo) list"
  totalReleasedResource :: Resource

text \<open>The first four statements of \<open>trySurgicalPreemptionOnNode\<close>.\<close>

definition resourceToPreempt :: "SchedulingNode \<Rightarrow> SchedulingAllocationAsk \<Rightarrow> Resource" where
  "resourceToPreempt n candidate =
     ComponentWiseMax
       (Sub (Sub (Add (AllocatingResource n) (AllocatedResource candidate)) (PreemptingResource n))
            (CachedAvailableResource n))
       Zero"

text \<open>The loop over the allocations of the node. The boolean of \<open>headroomShortageUpdate\<close>
  is dropped, as in the source; only the map it leaves is kept.\<close>

fun trySurgicalPreemptionOnNode_loop ::
  "preemptionPartitionContext \<Rightarrow> preemptionQueueContext \<Rightarrow> SchedulingNode \<Rightarrow> SchedulingAllocationAsk \<Rightarrow>
   Resource \<Rightarrow> AllocationInfo list \<Rightarrow> shortages \<Rightarrow> (string \<times> AllocationInfo) list \<Rightarrow> Resource \<Rightarrow>
   singleNodePreemptResult option \<times> shortages" where
  "trySurgicalPreemptionOnNode_loop ctx preemptorQueue n candidate toPreempt [] headroomShortages
     toRelease totalReleased = (None, headroomShortages)"
| "trySurgicalPreemptionOnNode_loop ctx preemptorQueue n candidate toPreempt (alloc # rest) headroomShortages
     toRelease totalReleased =
     (case leafQueues ctx (AllocationQueueName alloc) of
        None \<Rightarrow>
          trySurgicalPreemptionOnNode_loop ctx preemptorQueue n candidate toPreempt rest headroomShortages
            toRelease totalReleased
      | Some preemptQueue \<Rightarrow>
          if Comp (partitionTotalResource ctx) (preemptable preemptQueue) Zero \<le> 0
          then trySurgicalPreemptionOnNode_loop ctx preemptorQueue n candidate toPreempt rest
                 headroomShortages toRelease totalReleased
          else
            (let postPreemption = SubEliminateNegative (preemptable preemptQueue) (AllocatedResource candidate)
             in if 0 \<le> Comp (partitionTotalResource ctx) postPreemption (preemptable preemptQueue)
                then trySurgicalPreemptionOnNode_loop ctx preemptorQueue n candidate toPreempt rest
                       headroomShortages toRelease totalReleased
                else
                  (let headroomShortages' =
                         snd (headroomShortageUpdate preemptorQueue (Some preemptQueue)
                                (AllocationResource alloc) headroomShortages);
                       toRelease' = AList.update (AllocationUuid alloc) alloc toRelease;
                       totalReleased' = Add totalReleased (AllocationResource alloc)
                   in if StrictlyGreaterThanOrEquals totalReleased' toPreempt
                      then (Some \<lparr>node = n, toReleaseAllocations = toRelease',
                                   totalReleasedResource = totalReleased'\<rparr>, headroomShortages')
                      else trySurgicalPreemptionOnNode_loop ctx preemptorQueue n candidate toPreempt rest
                             headroomShortages' toRelease' totalReleased')))"

text \<open>\<open>trySurgicalPreemptionOnNode\<close> returns its result, nil being \<open>None\<close>, and the map of
  shortages after the call.\<close>

definition trySurgicalPreemptionOnNode ::
  "node_check \<Rightarrow> preemptionPartitionContext \<Rightarrow> preemptionQueueContext \<Rightarrow> SchedulingNode \<Rightarrow>
   SchedulingAllocationAsk \<Rightarrow> shortages \<Rightarrow> singleNodePreemptResult option \<times> shortages" where
  "trySurgicalPreemptionOnNode CheckAndAllocateResource ctx preemptorQueue n candidate headroomShortages =
     (let toPreempt = resourceToPreempt n candidate;
          (fits, n') = CheckAndAllocateResource n (AllocatedResource candidate) True
      in if fits
         then (Some \<lparr>node = n', toReleaseAllocations = [], totalReleasedResource = Zero\<rparr>,
               headroomShortages)
         else trySurgicalPreemptionOnNode_loop ctx preemptorQueue n' candidate toPreempt
                (GetAllAllocations n') headroomShortages [] NewResource)"

text \<open>The loop over the nodes of \<open>crossQueuePreemptionAllocate\<close>; the map of shortages
  goes from one node to the next.\<close>

fun crossQueuePreemptionAllocate_loop ::
  "node_check \<Rightarrow> preemptionPartitionContext \<Rightarrow> preemptionQueueContext \<Rightarrow> SchedulingNode list \<Rightarrow>
   SchedulingAllocationAsk \<Rightarrow> shortages \<Rightarrow> singleNodePreemptResult option \<times> shortages" where
  "crossQueuePreemptionAllocate_loop check ctx preemptorQueue [] candidate headroomShortages =
     (None, headroomShortages)"
| "crossQueuePreemptionAllocate_loop check ctx preemptorQueue (n # nodes) candidate headroomShortages =
     (case trySurgicalPreemptionOnNode check ctx preemptorQueue n candidate headroomShortages of
        (Some preemptResult, headroomShortages') \<Rightarrow> (Some preemptResult, headroomShortages')
      | (None, headroomShortages') \<Rightarrow>
          crossQueuePreemptionAllocate_loop check ctx preemptorQueue nodes candidate headroomShortages')"

text \<open>
  \<open>crossQueuePreemptionAllocate\<close> up to its last statement: \<open>None\<close> where the function
  returns nil, and otherwise the node and the list of results that it hands to
  \<open>createPreemptionAndAllocationProposal\<close>, which builds the allocation with its
  releases and updates the counters of the queues and of the node.
\<close>

definition crossQueuePreemptionAllocate ::
  "node_check \<Rightarrow> preemptionPartitionContext option \<Rightarrow> SchedulingNode list \<Rightarrow> SchedulingAllocationAsk \<Rightarrow>
   (SchedulingNode \<times> singleNodePreemptResult list) option" where
  "crossQueuePreemptionAllocate check preemptionPartitionContext nodes candidate =
     (case preemptionPartitionContext of
        None \<Rightarrow> None
      | Some ctx \<Rightarrow>
          (case leafQueues ctx (QueueName candidate) of
             None \<Rightarrow> None
           | Some preemptorQueue \<Rightarrow>
               (let headroomShortages = initHeadroomShortages (Some preemptorQueue) (AllocatedResource candidate)
                in case fst (crossQueuePreemptionAllocate_loop check ctx preemptorQueue nodes candidate
                               headroomShortages) of
                     None \<Rightarrow> None
                   | Some preemptResult \<Rightarrow> Some (node preemptResult, [preemptResult]))))"

text \<open>
  Two notions to state what the walk over the allocations does: an allocation is kept
  as a victim when its queue is a leaf of the context, has a preemptable resource with
  a positive share, and that resource shrinks when the ask is taken off it; \<open>released\<close>
  is the resource that a list of victims adds to a running total.
\<close>

definition preemption_victim :: "preemptionPartitionContext \<Rightarrow> SchedulingAllocationAsk \<Rightarrow> AllocationInfo \<Rightarrow> bool" where
  "preemption_victim ctx candidate alloc =
     (case leafQueues ctx (AllocationQueueName alloc) of
        None \<Rightarrow> False
      | Some preemptQueue \<Rightarrow>
          0 < Comp (partitionTotalResource ctx) (preemptable preemptQueue) Zero \<and>
          Comp (partitionTotalResource ctx)
            (SubEliminateNegative (preemptable preemptQueue) (AllocatedResource candidate))
            (preemptable preemptQueue) < 0)"

definition released :: "AllocationInfo list \<Rightarrow> Resource \<Rightarrow> Resource" where
  "released victims start = fold (\<lambda>alloc acc. Add acc (AllocationResource alloc)) victims start"

text \<open>
  The tree of the comment above \<open>headroomShortageUpdate\<close> in the source: under the root
  the queue \<open>b\<close>, which has reached its max, with the demanding leaf \<open>b1\<close>, and the leaf
  \<open>c\<close>, which holds preemptable resource. The candidate asks for 100 of memory in
  \<open>root.b.b1\<close>; three nodes without free resource hold an allocation of 100 of \<open>root.c\<close>,
  no allocation, and an allocation of 50 of \<open>root.c\<close>. \<open>fit_check\<close> stands for the check of
  the node in these examples: the ask fits when the available resource, with the
  preempting resource in the preemption phase, covers the allocating resource and the
  ask.
\<close>

definition pq_root :: preemptionQueueContext where
  "pq_root = preemptionQueueContext ''root'' None [(''memory'', 1000)] [] [] [(''memory'', 500)]"

definition pq_b :: preemptionQueueContext where
  "pq_b = preemptionQueueContext ''root.b'' (Some pq_root) [(''memory'', 200)] [] [] [(''memory'', 200)]"

definition pq_b1 :: preemptionQueueContext where
  "pq_b1 = preemptionQueueContext ''root.b.b1'' (Some pq_b) [(''memory'', 200)] [] [] []"

definition pq_c :: preemptionQueueContext where
  "pq_c = preemptionQueueContext ''root.c'' (Some pq_root) [(''memory'', 1000)] [] [(''memory'', 300)] [(''memory'', 300)]"

definition example_ctx :: preemptionPartitionContext where
  "example_ctx = \<lparr>leafQueues = [''root.b.b1'' \<mapsto> pq_b1, ''root.c'' \<mapsto> pq_c],
     partitionTotalResource = [(''memory'', 1000)]\<rparr>"

definition alloc_c :: AllocationInfo where
  "alloc_c = \<lparr>AllocationUuid = ''uuid-1'', AllocationQueueName = ''root.c'',
     AllocationApplicationId = ''app-2'', AllocationResource = [(''memory'', 100)]\<rparr>"

definition alloc_small :: AllocationInfo where
  "alloc_small = \<lparr>AllocationUuid = ''uuid-2'', AllocationQueueName = ''root.c'',
     AllocationApplicationId = ''app-2'', AllocationResource = [(''memory'', 50)]\<rparr>"

definition node_1 :: SchedulingNode where
  "node_1 = \<lparr>NodeId = ''node-1'', AllocatingResource = [], PreemptingResource = [],
     CachedAvailableResource = [], GetAllAllocations = [alloc_c]\<rparr>"

definition node_2 :: SchedulingNode where
  "node_2 = \<lparr>NodeId = ''node-2'', AllocatingResource = [], PreemptingResource = [],
     CachedAvailableResource = [], GetAllAllocations = []\<rparr>"

definition node_3 :: SchedulingNode where
  "node_3 = \<lparr>NodeId = ''node-3'', AllocatingResource = [], PreemptingResource = [],
     CachedAvailableResource = [], GetAllAllocations = [alloc_small]\<rparr>"

definition candidate_b1 :: SchedulingAllocationAsk where
  "candidate_b1 = (ask_with 1)\<lparr>QueueName := ''root.b.b1''\<rparr>"

definition fit_check :: node_check where
  "fit_check n delta preemptionPhase =
     (if StrictlyGreaterThanOrEquals
           (if preemptionPhase then Add (CachedAvailableResource n) (PreemptingResource n)
            else CachedAvailableResource n)
           (Add delta (AllocatingResource n))
      then (True, n\<lparr>AllocatingResource := Add delta (AllocatingResource n)\<rparr>)
      else (False, n))"

section \<open>Partition manager\<close>

text \<open>\<open>PartitionManager\<close>. The links \<open>psc\<close> and \<open>csc\<close> point back to the partition and the
  cluster; the partition is kept by its name. \<open>interval\<close> is a \<open>time.Duration\<close>, a number of
  nanoseconds.\<close>

record PartitionManager =
  psc :: string
  stop :: bool
  interval :: int

definition cleanerInterval :: int where
  "cleanerInterval = 10000"

definition Millisecond :: int where
  "Millisecond = 1000000"

text \<open>
  \<open>Stop\<close> has the value receiver \<open>(manager PartitionManager)\<close>: the call copies the struct
  into the receiver, the assignment writes the copy, and the method returns nothing.
\<close>

definition Stop :: "PartitionManager \<Rightarrow> unit" where
  "Stop manager = (let manager = manager\<lparr>stop := True\<rparr> in ())"

text \<open>
  \<open>Run\<close> has a value receiver too. The statement \<open>go newPartition.partitionManager.Run()\<close>
  of \<open>updateSchedulingPartitions\<close> evaluates the receiver when it starts the goroutine, so
  \<open>Run\<close> works on its own copy of the struct. The world of one partition: the struct
  that \<open>partition.partitionManager\<close> points to, whether the cluster context lists the
  partition, the receiver of the running \<open>Run\<close>, and whether \<open>Run\<close> has left its loop
  and gone through \<open>remove\<close>.
\<close>

record world =
  manager_struct :: PartitionManager
  partition_listed :: bool
  run_receiver :: PartitionManager
  run_returned :: bool

text \<open>The first statement of \<open>Run\<close>, on its receiver.\<close>

definition Run_start :: "PartitionManager \<Rightarrow> PartitionManager" where
  "Run_start manager =
     (if interval manager = 0 then manager\<lparr>interval := cleanerInterval * Millisecond\<rparr> else manager)"

text \<open>\<open>updateSchedulingPartitions\<close> for a new partition: the manager is created with the
  zero values of \<open>stop\<close> and \<open>interval\<close>, and \<open>Run\<close> is started on a copy.\<close>

definition updateSchedulingPartitions :: "string \<Rightarrow> world" where
  "updateSchedulingPartitions name =
     (let partitionManager = \<lparr>psc = name, stop = False, interval = 0\<rparr>
      in \<lparr>manager_struct = partitionManager, partition_listed = True,
          run_receiver = Run_start partitionManager, run_returned = False\<rparr>)"

text \<open>
  What can happen next: \<open>Run\<close> goes once through its loop (it sleeps, cleans the queues,
  which the world does not hold, and tests \<open>manager.stop\<close> on its receiver; when the
  test succeeds it leaves the loop and \<open>remove\<close> unlists the partition);
  \<open>deleteSchedulingPartitions\<close> finds the partition and calls \<open>Stop\<close>; or
  \<open>RemoveSchedulingPartitionsByRMId\<close> writes the flag of the struct through the pointer
  and unlists the partition.
\<close>

datatype event = Tick | DeleteSchedulingPartitions | RemoveSchedulingPartitionsByRMId

fun step :: "world \<Rightarrow> event \<Rightarrow> world" where
  "step w Tick =
     (if run_returned w then w
      else if stop (run_receiver w) then w\<lparr>partition_listed := False, run_returned := True\<rparr>
      else w)"
| "step w DeleteSchedulingPartitions =
     (if partition_listed w then (let u = Stop (manager_struct w) in w) else w)"
| "step w RemoveSchedulingPartitionsByRMId =
     (if partition_listed w
      then w\<lparr>manager_struct := (manager_struct w)\<lparr>stop := True\<rparr>, partition_listed := False\<rparr>
      else w)"

definition run_events :: "world \<Rightarrow> event list \<Rightarrow> world" where
  "run_events w evs = foldl step w evs"

section \<open>Properties of the resource algebra\<close>

lemma quantity_componentwise:
  "f 0 0 = 0 \<Longrightarrow> quantity (componentwise f a b) k = f (quantity a k) (quantity b k)"
proof -
  assume z: "f 0 0 = 0"
  have m: "map_of (map (\<lambda>k. (k, g k)) ks) k = (if k \<in> set ks then Some (g k) else None)" for g ks
    by (induction ks) auto
  have out: "k \<notin> set (keys2 a b) \<Longrightarrow> quantity a k = 0 \<and> quantity b k = 0"
    by (auto simp: keys2_def quantity_def map_of_eq_None_iff [symmetric] split: option.splits)
  show ?thesis
    using z out by (auto simp: componentwise_def quantity_def m)
qed

lemma quantity_Add [simp]: "quantity (Add a b) k = quantity a k + quantity b k"
  by (simp add: Add_def quantity_componentwise)

lemma quantity_Sub [simp]: "quantity (Sub a b) k = quantity a k - quantity b k"
  by (simp add: Sub_def quantity_componentwise)

lemma quantity_SubEliminateNegative [simp]:
  "quantity (SubEliminateNegative a b) k = max 0 (quantity a k - quantity b k)"
  by (simp add: SubEliminateNegative_def quantity_componentwise)

lemma quantity_ComponentWiseMax [simp]:
  "quantity (ComponentWiseMax a b) k = max (quantity a k) (quantity b k)"
  by (simp add: ComponentWiseMax_def quantity_componentwise)

lemma quantity_Zero [simp]: "quantity Zero k = 0" "quantity NewResource k = 0"
  by (simp_all add: Zero_def NewResource_def quantity_def)

lemma quantity_outside: "k \<notin> fst ` set r \<Longrightarrow> quantity r k = 0"
  using map_of_eq_None_iff [of r k] by (simp add: quantity_def)

lemma quantity_outside2: "k \<notin> set (keys2 a b) \<Longrightarrow> quantity a k = 0 \<and> quantity b k = 0"
  by (simp add: keys2_def quantity_outside)

lemma StrictlyGreaterThanZero_iff: "StrictlyGreaterThanZero r \<longleftrightarrow> (\<exists>k. 0 < quantity r k)"
proof
  assume "StrictlyGreaterThanZero r"
  then show "\<exists>k. 0 < quantity r k"
    by (auto simp: StrictlyGreaterThanZero_def list_ex_iff)
next
  assume "\<exists>k. 0 < quantity r k"
  then obtain k where k: "0 < quantity r k" by blast
  then have "k \<in> fst ` set r"
    using quantity_outside [of k r] by fastforce
  with k show "StrictlyGreaterThanZero r"
    by (auto simp: StrictlyGreaterThanZero_def list_ex_iff)
qed

lemma StrictlyGreaterThanOrEquals_iff:
  "StrictlyGreaterThanOrEquals larger smaller \<longleftrightarrow> (\<forall>k. quantity smaller k \<le> quantity larger k)"
proof
  assume a: "StrictlyGreaterThanOrEquals larger smaller"
  show "\<forall>k. quantity smaller k \<le> quantity larger k"
  proof
    fix k
    show "quantity smaller k \<le> quantity larger k"
    proof (cases "k \<in> set (keys2 larger smaller)")
      case True
      with a show ?thesis by (simp add: StrictlyGreaterThanOrEquals_def list_all_iff)
    next
      case False
      then show ?thesis using quantity_outside2 [of k larger smaller] by simp
    qed
  qed
next
  assume "\<forall>k. quantity smaller k \<le> quantity larger k"
  then show "StrictlyGreaterThanOrEquals larger smaller"
    by (simp add: StrictlyGreaterThanOrEquals_def list_all_iff)
qed

lemma shortage_iff:
  "StrictlyGreaterThanZero (SubEliminateNegative res hr) \<longleftrightarrow> (\<exists>k. quantity hr k < quantity res k)"
proof -
  have "0 < max 0 (a - b) \<longleftrightarrow> b < a" for a b :: int
    by auto
  then show ?thesis
    by (simp add: StrictlyGreaterThanZero_iff)
qed

lemma quantity_headroom:
  "quantity (headroom c) k =
     quantity (pqc_max c) k - quantity (GetAllocatingResource c) k + quantity (markedPreemptedResource c) k"
  by (simp add: headroom_def)

section \<open>The pending counter of an ask\<close>

lemma sint_add_in_range:
  fixes a b :: int32
  assumes "- (2 ^ 31) \<le> sint a + sint b" and "sint a + sint b < 2 ^ 31"
  shows "sint (a + b) = sint a + sint b"
  using assms by (simp add: sint_word_ariths signed_take_bit_int_eq_self)

text \<open>
  Claim C5, as stated: for every ask and every delta, \<open>AddPendingAskRepeat\<close> returns true
  and stores old + delta when old + delta \<ge> 0, and returns false without a change when
  old + delta < 0. With the sum read as the sum of the two integers this fails where
  the 32-bit addition overflows: the counter is 2147483647 and delta is 1, the sum
  2147483648 is not negative, and the call returns false and stores nothing, because
  the sum of the code wrapped around to -2147483648.
\<close>

theorem AddPendingAskRepeat_counterexample:
  "0 \<le> sint (PendingRepeatAsk (ask_with 2147483647)) + sint (1 :: int32) \<and>
   AddPendingAskRepeat (ask_with 2147483647) 1 = (False, ask_with 2147483647)"
  by (simp add: AddPendingAskRepeat_def ask_with_def)

text \<open>
  Claim C5, amended: whenever the sum of the counter and delta lies in the range of
  \<open>int32\<close>, the call returns true and stores the sum when the sum is at least 0, and
  returns false and leaves the ask as it was when the sum is negative. For every delta,
  in range or not: a call that returns true leaves a counter that is at least 0, a call
  that returns false changes nothing, and so a counter that is at least 0 before the
  call is at least 0 after it.
\<close>

theorem AddPendingAskRepeat_int32:
  "(- (2 ^ 31) \<le> sint (PendingRepeatAsk m) + sint delta \<and>
    sint (PendingRepeatAsk m) + sint delta < 2 ^ 31 \<longrightarrow>
      (0 \<le> sint (PendingRepeatAsk m) + sint delta \<longrightarrow>
         AddPendingAskRepeat m delta = (True, m\<lparr>PendingRepeatAsk := PendingRepeatAsk m + delta\<rparr>) \<and>
         sint (PendingRepeatAsk (snd (AddPendingAskRepeat m delta))) =
           sint (PendingRepeatAsk m) + sint delta) \<and>
      (sint (PendingRepeatAsk m) + sint delta < 0 \<longrightarrow>
         AddPendingAskRepeat m delta = (False, m))) \<and>
   (fst (AddPendingAskRepeat m delta) \<longrightarrow>
      0 \<le> sint (PendingRepeatAsk (snd (AddPendingAskRepeat m delta)))) \<and>
   (\<not> fst (AddPendingAskRepeat m delta) \<longrightarrow> snd (AddPendingAskRepeat m delta) = m) \<and>
   (0 \<le> sint (PendingRepeatAsk m) \<longrightarrow>
      0 \<le> sint (PendingRepeatAsk (snd (AddPendingAskRepeat m delta))))"
proof -
  have in_range: "sint (PendingRepeatAsk m + delta) = sint (PendingRepeatAsk m) + sint delta"
    if "- (2 ^ 31) \<le> sint (PendingRepeatAsk m) + sint delta"
      and "sint (PendingRepeatAsk m) + sint delta < 2 ^ 31"
    using that by (rule sint_add_in_range)
  show ?thesis
    using in_range by (simp add: AddPendingAskRepeat_def)
qed

theorem AddPendingAskRepeat_int32_witness:
  "AddPendingAskRepeat (ask_with 3) (- 2) = (True, ask_with 1) \<and>
   AddPendingAskRepeat (ask_with 3) (- 5) = (False, ask_with 3) \<and>
   0 \<le> sint (PendingRepeatAsk (snd (AddPendingAskRepeat (ask_with 2147483647) 1)))"
proof -
  have s3: "sint (PendingRepeatAsk (ask_with 3)) = 3"
    and smax: "sint (PendingRepeatAsk (ask_with 2147483647)) = 2147483647"
    by (simp_all add: ask_with_def)
  have upd: "(ask_with 3)\<lparr>PendingRepeatAsk := PendingRepeatAsk (ask_with 3) - 2\<rparr> = ask_with 1"
    by (simp add: ask_with_def)
  from AddPendingAskRepeat_int32 [of "ask_with 3" "- 2"]
  have a: "AddPendingAskRepeat (ask_with 3) (- 2) = (True, ask_with 1)"
    by (simp add: s3 upd)
  from AddPendingAskRepeat_int32 [of "ask_with 3" "- 5"]
  have b: "AddPendingAskRepeat (ask_with 3) (- 5) = (False, ask_with 3)"
    by (simp add: s3)
  from AddPendingAskRepeat_int32 [of "ask_with 2147483647" 1]
  have c: "0 \<le> sint (PendingRepeatAsk (snd (AddPendingAskRepeat (ask_with 2147483647) 1)))"
    by (simp add: smax)
  from a b c show ?thesis by simp
qed

section \<open>The parent chain of a queue\<close>

lemma ancestry_head: "ancestry h sq qs \<Longrightarrow> \<exists>ps. qs = sq # ps"
  by (induction rule: ancestry.induct) auto

lemma ancestry_unique: "ancestry h sq xs \<Longrightarrow> ancestry h sq ys \<Longrightarrow> xs = ys"
proof (induction arbitrary: ys rule: ancestry.induct)
  case (ancestry_root sq q)
  from ancestry_root.prems ancestry_root.hyps show ?case
    by (cases rule: ancestry.cases) auto
next
  case (ancestry_step sq q p ps)
  from ancestry_step.prems ancestry_step.hyps(1,2) ancestry_step.IH show ?case
    by (cases rule: ancestry.cases) auto
qed

lemma ancestry_suffix:
  "ancestry h sq qs \<Longrightarrow> r \<in> set qs \<Longrightarrow> \<exists>us vs. qs = us @ r # vs \<and> ancestry h r (r # vs)"
proof (induction rule: ancestry.induct)
  case (ancestry_root sq q)
  then have "r = sq" by simp
  with ancestry_root show ?case
    by (metis ancestry.ancestry_root append_Nil)
next
  case (ancestry_step sq q p ps)
  show ?case
  proof (cases "r = sq")
    case True
    with ancestry_step.hyps show ?thesis
      by (metis ancestry.ancestry_step append_Nil)
  next
    case False
    with ancestry_step.prems have "r \<in> set ps" by simp
    with ancestry_step.IH obtain us vs where "ps = us @ r # vs" "ancestry h r (r # vs)"
      by blast
    then have "sq # ps = (sq # us) @ r # vs" by simp
    with \<open>ancestry h r (r # vs)\<close> show ?thesis by blast
  qed
qed

lemma ancestry_acyclic: "ancestry h sq (sq # ps) \<Longrightarrow> sq \<notin> set ps"
proof
  assume a: "ancestry h sq (sq # ps)" and mem: "sq \<in> set ps"
  from a show False
  proof (cases rule: ancestry.cases)
    case (ancestry_root q)
    with mem show False by simp
  next
    case (ancestry_step q p)
    then have "ancestry h p ps" by simp
    from ancestry_suffix [OF this mem] obtain us vs where
      ps: "ps = us @ sq # vs" and b: "ancestry h sq (sq # vs)" by blast
    from ancestry_unique [OF a b] have "ps = vs" by simp
    with ps have "length ps = length us + Suc (length ps)" by simp
    then show False by simp
  qed
qed

lemma ancestry_credit:
  "ancestry h sq qs \<Longrightarrow> ancestry (credit f S h) sq qs"
proof (induction rule: ancestry.induct)
  case (ancestry_root sq q)
  then show ?case
    by (intro ancestry.ancestry_root [where q = "if sq \<in> S then q\<lparr>pendingResource := f (pendingResource q)\<rparr> else q"])
       (auto simp: credit_def)
next
  case (ancestry_step sq q p ps)
  then show ?case
    by (intro ancestry.ancestry_step [where q = "if sq \<in> S then q\<lparr>pendingResource := f (pendingResource q)\<rparr> else q" and p = p])
       (auto simp: credit_def)
qed

lemma IncPendingResource_ancestry:
  "ancestry h sq qs \<Longrightarrow> IncPendingResource h sq delta = Some (credit (\<lambda>r. Add r delta) (set qs) h)"
proof (induction rule: ancestry.induct)
  case (ancestry_root sq q)
  then show ?case
    by (subst IncPendingResource.simps) (auto simp: credit_def fun_eq_iff)
next
  case (ancestry_step sq q p ps)
  from ancestry.ancestry_step [OF ancestry_step.hyps] have "sq \<notin> set ps"
    by (rule ancestry_acyclic)
  with ancestry_step.hyps(1,2) ancestry_step.IH show ?case
    by (subst IncPendingResource.simps) (auto simp: credit_def fun_eq_iff)
qed

lemma DecPendingResource_ancestry:
  "ancestry h sq qs \<Longrightarrow> DecPendingResource h sq delta = Some (credit (\<lambda>r. Sub r delta) (set qs) h)"
proof (induction rule: ancestry.induct)
  case (ancestry_root sq q)
  then show ?case
    by (subst DecPendingResource.simps) (auto simp: credit_def fun_eq_iff)
next
  case (ancestry_step sq q p ps)
  from ancestry.ancestry_step [OF ancestry_step.hyps] have "sq \<notin> set ps"
    by (rule ancestry_acyclic)
  with ancestry_step.hyps(1,2) ancestry_step.IH show ?case
    by (subst DecPendingResource.simps) (auto simp: credit_def fun_eq_iff)
qed

lemma ancestry_defined: "ancestry h sq qs \<Longrightarrow> r \<in> set qs \<Longrightarrow> \<exists>x. h r = Some x"
  by (induction rule: ancestry.induct) auto

subsection \<open>The example partition\<close>

lemma LastIndex_root_a: "LastIndex ''root.a'' DOT = 4"
  by code_simp

lemma example_queues_eq: "example_queues = [0 \<mapsto> example_root, Suc 0 \<mapsto> example_a]"
  by (simp add: example_queues_def cache_root_def cache_a_def example_root_def example_a_def
      Let_def modify_def updateSchedulingQueueProperties_def NewResource_def LastIndex_root_a
      fun_eq_iff)

lemma ancestry_example: "ancestry example_queues 1 [1, 0]"
  by (rule ancestry_step [where q = example_a and p = 0], simp_all add: example_queues_eq example_a_def)
     (rule ancestry_root [where q = example_root], simp_all add: example_root_def)

section \<open>Pending resource of the queues\<close>

text \<open>
  Claim C10: for every queue \<open>q\<close> whose parent chain \<open>qs\<close> ends at the root and every
  resource \<open>d\<close>, \<open>IncPendingResource\<close> returns, adds \<open>d\<close> to the pending resource of \<open>q\<close> and
  of every ancestor of \<open>q\<close> up to the root (each component grows by that of \<open>d\<close>) and
  leaves every other queue of the store as it was; \<open>DecPendingResource\<close> subtracts \<open>d\<close>
  from exactly the same queues and from no others.
\<close>

theorem PendingResource_frame:
  assumes "ancestry h q qs"
  shows "(\<exists>h'. IncPendingResource h q d = Some h' \<and>
            (\<forall>r \<in> set qs. \<exists>x. h r = Some x \<and>
               h' r = Some (x\<lparr>pendingResource := Add (pendingResource x) d\<rparr>) \<and>
               (\<forall>k. quantity (Add (pendingResource x) d) k = quantity (pendingResource x) k + quantity d k)) \<and>
            (\<forall>r. r \<notin> set qs \<longrightarrow> h' r = h r)) \<and>
         (\<exists>h'. DecPendingResource h q d = Some h' \<and>
            (\<forall>r \<in> set qs. \<exists>x. h r = Some x \<and>
               h' r = Some (x\<lparr>pendingResource := Sub (pendingResource x) d\<rparr>) \<and>
               (\<forall>k. quantity (Sub (pendingResource x) d) k = quantity (pendingResource x) k - quantity d k)) \<and>
            (\<forall>r. r \<notin> set qs \<longrightarrow> h' r = h r))"
proof (intro conjI)
  have def: "\<exists>x. h r = Some x" if "r \<in> set qs" for r
    using ancestry_defined [OF assms that] .
  show "\<exists>h'. IncPendingResource h q d = Some h' \<and>
            (\<forall>r \<in> set qs. \<exists>x. h r = Some x \<and>
               h' r = Some (x\<lparr>pendingResource := Add (pendingResource x) d\<rparr>) \<and>
               (\<forall>k. quantity (Add (pendingResource x) d) k = quantity (pendingResource x) k + quantity d k)) \<and>
            (\<forall>r. r \<notin> set qs \<longrightarrow> h' r = h r)"
    using def by (subst IncPendingResource_ancestry [OF assms]) (fastforce simp: credit_def)
  show "\<exists>h'. DecPendingResource h q d = Some h' \<and>
            (\<forall>r \<in> set qs. \<exists>x. h r = Some x \<and>
               h' r = Some (x\<lparr>pendingResource := Sub (pendingResource x) d\<rparr>) \<and>
               (\<forall>k. quantity (Sub (pendingResource x) d) k = quantity (pendingResource x) k - quantity d k)) \<and>
            (\<forall>r. r \<notin> set qs \<longrightarrow> h' r = h r)"
    using def by (subst DecPendingResource_ancestry [OF assms]) (fastforce simp: credit_def)
qed

theorem PendingResource_frame_witness:
  "ancestry example_queues 1 [1, 0] \<and>
   (\<exists>h'. IncPendingResource example_queues 1 [(''memory'', 5)] = Some h' \<and>
      map_option pendingResource (h' 0) = Some [(''memory'', 5)] \<and>
      map_option pendingResource (h' 1) = Some [(''memory'', 5)] \<and>
      h' 2 = example_queues 2) \<and>
   (\<exists>h'. DecPendingResource example_queues 1 [(''memory'', 5)] = Some h' \<and>
      map_option pendingResource (h' 0) = Some [(''memory'', - 5)] \<and>
      map_option pendingResource (h' 1) = Some [(''memory'', - 5)] \<and>
      h' 2 = example_queues 2)"
proof -
  have add: "Add [] [(''memory'', 5)] = [(''memory'', 5)]"
    and sub: "Sub [] [(''memory'', 5)] = [(''memory'', - 5)]"
    by (simp_all add: Add_def Sub_def componentwise_def keys2_def quantity_def)
  note frame = PendingResource_frame [OF ancestry_example, of "[(''memory'', 5)]"]
  have inc: "\<exists>h'. IncPendingResource example_queues 1 [(''memory'', 5)] = Some h' \<and>
      map_option pendingResource (h' 0) = Some [(''memory'', 5)] \<and>
      map_option pendingResource (h' 1) = Some [(''memory'', 5)] \<and>
      h' 2 = example_queues 2"
    using frame by (auto simp: example_queues_eq example_root_def example_a_def add)
  have dec: "\<exists>h'. DecPendingResource example_queues 1 [(''memory'', 5)] = Some h' \<and>
      map_option pendingResource (h' 0) = Some [(''memory'', - 5)] \<and>
      map_option pendingResource (h' 1) = Some [(''memory'', - 5)] \<and>
      h' 2 = example_queues 2"
    using frame by (auto simp: example_queues_eq example_root_def example_a_def sub)
  from ancestry_example inc dec show ?thesis by blast
qed

text \<open>
  Claim C9: \<open>DecPendingResource\<close> subtracts with no lower bound. On the example
  partition, whose queues start with an empty pending resource, adding one unit of
  memory at the leaf and then removing two leaves -1 at the leaf and at the root: the
  decrement is neither rejected nor clamped to zero.
\<close>

theorem DecPendingResource_goes_negative:
  "\<exists>h' q root. apply_pending_ops example_queues [Inc 1 [(''memory'', 1)], Dec 1 [(''memory'', 2)]] = Some h' \<and>
      h' 1 = Some q \<and> quantity (pendingResource q) ''memory'' = - 1 \<and>
      h' 0 = Some root \<and> quantity (pendingResource root) ''memory'' = - 1"
proof -
  let ?h1 = "credit (\<lambda>r. Add r [(''memory'', 1)]) (set [1, 0]) example_queues"
  have 1: "IncPendingResource example_queues 1 [(''memory'', 1)] = Some ?h1"
    by (rule IncPendingResource_ancestry [OF ancestry_example])
  have "ancestry ?h1 1 [1, 0]"
    by (rule ancestry_credit [OF ancestry_example])
  then have 2: "DecPendingResource ?h1 1 [(''memory'', 2)] =
      Some (credit (\<lambda>r. Sub r [(''memory'', 2)]) (set [1, 0]) ?h1)"
    by (rule DecPendingResource_ancestry)
  have 3: "apply_pending_ops example_queues [Inc 1 [(''memory'', 1)], Dec 1 [(''memory'', 2)]] =
      Some (credit (\<lambda>r. Sub r [(''memory'', 2)]) (set [1, 0]) ?h1)"
    by (simp only: apply_pending_ops.simps 1 2 option.case)
  show ?thesis
    unfolding 3 by (simp add: credit_def example_queues_eq quantity_Sub quantity_Add)
      (simp add: quantity_def example_root_def example_a_def)
qed

section \<open>Removing a queue\<close>

text \<open>
  Claim C4 says that a successful \<open>RemoveQueue\<close> removes the queue's entry from the
  children of its parent. \<open>NewSchedulingQueueInfo\<close> files the leaf \<open>root.a\<close> under the key
  \<open>a\<close>, the part of its path after the last dot, while \<open>RemoveQueue\<close> deletes the key
  \<open>root.a\<close>, the full path. On the example partition the call returns true and the
  store is the one before the call: the root still holds the entry of the leaf.
\<close>

theorem RemoveQueue_leaves_child_entry:
  "map_option Name (example_queues 1) = Some ''root.a'' \<and>
   map_option childrenQueues (example_queues 0) = Some [(''a'', 1)] \<and>
   RemoveQueue example_queues 1 = Some (True, example_queues)"
proof (intro conjI)
  show "map_option Name (example_queues 1) = Some ''root.a''"
    by (simp add: example_queues_eq example_a_def)
  show "map_option childrenQueues (example_queues 0) = Some [(''a'', 1)]"
    by (simp add: example_queues_eq example_root_def)
  show "RemoveQueue example_queues 1 = Some (True, example_queues)"
    by (simp add: example_queues_eq RemoveQueue_def removeChildQueue_def isManaged_def isRunning_def
       example_root_def example_a_def cache_a_def fun_eq_iff)
qed

text \<open>The same for every store: an entry of the parent under a key other than the
  queue's full path survives the removal.\<close>

lemma RemoveQueue_keeps_other_keys:
  assumes "RemoveQueue h sq = Some (True, h')" and "h sq = Some q" and "parent q = Some p"
    and "h p = Some pq" and "map_of (childrenQueues pq) k = Some sq" and "k \<noteq> Name q"
  shows "\<exists>pq'. h' p = Some pq' \<and> map_of (childrenQueues pq') k = Some sq"
  using assms
  by (auto simp: RemoveQueue_def removeChildQueue_def delete_conv' split: if_splits option.splits)

text \<open>The parts of claim C4 that the code keeps: no change when the queue is managed and
  running, or has children or applications.\<close>

lemma RemoveQueue_refuses:
  assumes "h sq = Some q"
    and "isManaged q \<and> isRunning q \<or> 0 < length (childrenQueues q) \<or> 0 < length (applications q)"
  shows "RemoveQueue h sq = Some (False, h)"
  using assms by (auto simp: RemoveQueue_def)

text \<open>The root, the queue without parent, is not removed: the call returns false, or,
  when the root is empty and not both managed and running, it does not return, since
  \<open>removeChildQueue\<close> is then called on the nil parent.\<close>

lemma RemoveQueue_root:
  assumes "h sq = Some q" and "parent q = None"
  shows "RemoveQueue h sq = Some (False, h) \<or> RemoveQueue h sq = None"
  using assms by (auto simp: RemoveQueue_def)

section \<open>Sorting the queues\<close>

text \<open>A slice of at most 20 elements is one block: the sort is the insertion sort and
  no merge takes place.\<close>

lemma SliceStable_one_block:
  assumes "length xs \<le> 20"
  shows "SliceStable lt xs = rev (fold (sift lt) xs [])"
proof (cases "length xs = 20")
  case True
  have "length (rev (fold (sift lt) xs [])) = length xs" for xs :: "'a list"
  proof -
    have "length (fold (sift lt) ys acc) = length ys + length acc" for ys acc :: "'a list"
    proof (induction ys arbitrary: acc)
      case Nil
      show ?case by simp
    next
      case (Cons y ys)
      have "length (sift lt y acc) = Suc (length acc)" for acc :: "'a list"
        by (induction acc) simp_all
      with Cons show ?case by simp
    qed
    then show ?thesis by simp
  qed
  with True show ?thesis
    by (simp add: SliceStable_def stable_def insertion_blocks.simps [of _ _ 20 0 20]
        insertion_blocks.simps [of _ _ 20 20 40] merge_passes.simps [of _ _ 20] insertionSort_def)
next
  case False
  with assms show ?thesis
    by (simp add: SliceStable_def stable_def insertion_blocks.simps [of _ _ 20 0 20]
        merge_passes.simps [of _ _ 20] insertionSort_def)
qed

text \<open>
  Claim C2 says that \<open>SortQueue\<close> with \<open>FairSortPolicy\<close> orders the queues by the ratio of
  each queue's own proposing resource to its own guaranteed resource. The comparison in
  the source passes the guaranteed resource of the left queue for both sides. With
  \<open>root.a\<close> proposing 50 of a guaranteed 100 (share 1/2) and \<open>root.b\<close> proposing 60 of a
  guaranteed 1000 (share 3/50), the sort compares 60/1000 with 50/1000 and leaves
  \<open>root.a\<close> first, although \<open>CompFairnessRatio\<close> on the queues' own guarantees puts the
  share of \<open>root.a\<close> above that of \<open>root.b\<close>.
\<close>

theorem SortQueue_compares_with_left_guarantee:
  "SortQueue [leaf_queue ''root.a'' 50 100, leaf_queue ''root.b'' 60 1000] FairSortPolicy =
     [leaf_queue ''root.a'' 50 100, leaf_queue ''root.b'' 60 1000] \<and>
   CompFairnessRatio
     (ProposingResource (leaf_queue ''root.a'' 50 100))
     (GuaranteedResource (CachedQueueInfo (leaf_queue ''root.a'' 50 100)))
     (ProposingResource (leaf_queue ''root.b'' 60 1000))
     (GuaranteedResource (CachedQueueInfo (leaf_queue ''root.b'' 60 1000))) = 1"
  by (simp add: SortQueue_def SliceStable_one_block CompFairnessRatio_def leaf_queue_def keys2_def
      share_def quantity_def)

section \<open>The fixed placement rule\<close>



text \<open>The filter comes before everything else: a user it rejects gets the empty path and
  no error, and the parent rule is not asked.\<close>

lemma fixed_rule_filtered:
  "\<not> allowUser fr (GetUser app) \<Longrightarrow> placeApplication fr app info = Some ('''', None)"
  by (simp add: placeApplication_def)



section \<open>Headroom shortages\<close>

lemma init_loop_keys:
  "fst ` set (initHeadroomShortages_loop cur res hs) =
     fst ` set hs \<union> {queuePath c |c. c \<in> set (ancestors cur) \<and> (\<exists>k. quantity (headroom c) k < quantity res k)}"
proof (induction cur res hs rule: initHeadroomShortages_loop.induct)
  case (1 res hs)
  then show ?case by simp
next
  case (2 cur res hs)
  let ?x = "SubEliminateNegative res (headroom cur)"
  show ?case
  proof (cases "StrictlyGreaterThanZero ?x")
    case True
    then have short: "\<exists>k. quantity (headroom cur) k < quantity res k"
      by (simp add: shortage_iff)
    have "fst ` set (initHeadroomShortages_loop (Some cur) res hs) =
        fst ` set (initHeadroomShortages_loop (pqc_parent cur) res (AList.update (queuePath cur) ?x hs))"
      using True by (simp add: Let_def)
    also have "\<dots> = fst ` set (AList.update (queuePath cur) ?x hs) \<union>
        {queuePath c |c. c \<in> set (ancestors (pqc_parent cur)) \<and> (\<exists>k. quantity (headroom c) k < quantity res k)}"
      using "2.IH" [OF refl] True by simp
    also have "\<dots> = fst ` set hs \<union>
        {queuePath c |c. c \<in> set (ancestors (Some cur)) \<and> (\<exists>k. quantity (headroom c) k < quantity res k)}"
      using short by (auto simp: dom_update)
    finally show ?thesis .
  next
    case False
    then have short: "\<not> (\<exists>k. quantity (headroom cur) k < quantity res k)"
      by (simp add: shortage_iff)
    have "fst ` set (initHeadroomShortages_loop (Some cur) res hs) =
        fst ` set (initHeadroomShortages_loop (pqc_parent cur) res hs)"
      using False by (simp add: Let_def)
    also have "\<dots> = fst ` set hs \<union>
        {queuePath c |c. c \<in> set (ancestors (pqc_parent cur)) \<and> (\<exists>k. quantity (headroom c) k < quantity res k)}"
      using "2.IH" [OF refl] False by simp
    also have "\<dots> = fst ` set hs \<union>
        {queuePath c |c. c \<in> set (ancestors (Some cur)) \<and> (\<exists>k. quantity (headroom c) k < quantity res k)}"
      using short by auto
    finally show ?thesis .
  qed
qed

lemma init_loop_other:
  "p \<notin> queuePath ` set (ancestors cur) \<Longrightarrow> map_of (initHeadroomShortages_loop cur res hs) p = map_of hs p"
proof (induction cur res hs rule: initHeadroomShortages_loop.induct)
  case (1 res hs)
  then show ?case by simp
next
  case (2 cur res hs)
  then show ?case
    by (simp add: Let_def update_conv')
qed

lemma init_loop_value:
  "distinct (map queuePath (ancestors cur)) \<Longrightarrow> c \<in> set (ancestors cur) \<Longrightarrow>
   map_of (initHeadroomShortages_loop cur res hs) (queuePath c) =
     (if \<exists>k. quantity (headroom c) k < quantity res k
      then Some (SubEliminateNegative res (headroom c)) else map_of hs (queuePath c))"
proof (induction cur res hs rule: initHeadroomShortages_loop.induct)
  case (1 res hs)
  then show ?case by simp
next
  case (2 cur res hs)
  show ?case
  proof (cases "c = cur")
    case True
    from "2.prems"(1) have "queuePath cur \<notin> queuePath ` set (ancestors (pqc_parent cur))"
      by simp
    then show ?thesis
      using True by (simp add: Let_def init_loop_other shortage_iff update_conv')
  next
    case False
    with "2.prems" have c: "c \<in> set (ancestors (pqc_parent cur))"
      and d: "distinct (map queuePath (ancestors (pqc_parent cur)))"
      and notin: "queuePath cur \<notin> queuePath ` set (ancestors (pqc_parent cur))"
      by auto
    from c notin have ne: "queuePath c \<noteq> queuePath cur"
      by (metis imageI)
    have "map_of (initHeadroomShortages_loop (Some cur) res hs) (queuePath c) =
        map_of (initHeadroomShortages_loop (pqc_parent cur) res
          (if StrictlyGreaterThanZero (SubEliminateNegative res (headroom cur))
           then AList.update (queuePath cur) (SubEliminateNegative res (headroom cur)) hs else hs))
          (queuePath c)"
      by (simp add: Let_def)
    also note "2.IH" [OF refl d c]
    finally show ?thesis
      using ne by (simp add: update_conv')
  qed
qed

lemma init_loop_values_short:
  assumes "\<forall>p v. map_of hs p = Some v \<longrightarrow> (\<exists>c. queuePath c = p \<and> v = SubEliminateNegative res (headroom c) \<and> (\<exists>k. quantity (headroom c) k < quantity res k))"
    and "map_of (initHeadroomShortages_loop cur res hs) p = Some v"
  shows "\<exists>c. queuePath c = p \<and> v = SubEliminateNegative res (headroom c) \<and> (\<exists>k. quantity (headroom c) k < quantity res k)"
  using assms
proof (induction cur res hs rule: initHeadroomShortages_loop.induct)
  case (1 res hs)
  then show ?case by simp
next
  case (2 cur res hs)
  let ?x = "SubEliminateNegative res (headroom cur)"
  let ?hs = "if StrictlyGreaterThanZero ?x then AList.update (queuePath cur) ?x hs else hs"
  have inv: "\<forall>p v. map_of ?hs p = Some v \<longrightarrow>
       (\<exists>c. queuePath c = p \<and> v = SubEliminateNegative res (headroom c) \<and> (\<exists>k. quantity (headroom c) k < quantity res k))"
    using "2.prems"(1) by (auto simp: update_conv' shortage_iff)
  from "2.prems"(2) have "map_of (initHeadroomShortages_loop (pqc_parent cur) res ?hs) p = Some v"
    by (simp add: Let_def)
  from "2.IH" [OF refl inv this] show ?case .
qed

text \<open>
  Claim C6: the keys of the map that \<open>initHeadroomShortages\<close> returns are exactly the paths
  of the queues, on the chain from the preemptor up to the root, whose headroom
  max - allocating + markedPreempted is exceeded by the ask in some component. Queue
  paths being distinct along the chain, each of these queues is mapped to
  \<open>SubEliminateNegative\<close> of the ask and its headroom and every other queue of the chain
  has no entry. Every value of the map is non-negative in all components and positive
  in one, and its components are max 0 (ask - headroom).
\<close>

theorem initHeadroomShortages_exact:
  "fst ` set (initHeadroomShortages q res) =
     {queuePath c |c. c \<in> set (ancestors q) \<and> (\<exists>k. quantity (headroom c) k < quantity res k)} \<and>
   (distinct (map queuePath (ancestors q)) \<longrightarrow>
      (\<forall>c \<in> set (ancestors q).
         map_of (initHeadroomShortages q res) (queuePath c) =
           (if \<exists>k. quantity (headroom c) k < quantity res k
            then Some (SubEliminateNegative res (headroom c)) else None))) \<and>
   (\<forall>p v. map_of (initHeadroomShortages q res) p = Some v \<longrightarrow>
      (\<forall>k. 0 \<le> quantity v k) \<and> (\<exists>k. 0 < quantity v k)) \<and>
   (\<forall>c k. quantity (SubEliminateNegative res (headroom c)) k =
      max 0 (quantity res k -
        (quantity (pqc_max c) k - quantity (GetAllocatingResource c) k +
         quantity (markedPreemptedResource c) k)))"
proof (intro conjI)
  show "fst ` set (initHeadroomShortages q res) =
     {queuePath c |c. c \<in> set (ancestors q) \<and> (\<exists>k. quantity (headroom c) k < quantity res k)}"
    by (simp add: initHeadroomShortages_def init_loop_keys)
  show "distinct (map queuePath (ancestors q)) \<longrightarrow>
      (\<forall>c \<in> set (ancestors q).
         map_of (initHeadroomShortages q res) (queuePath c) =
           (if \<exists>k. quantity (headroom c) k < quantity res k
            then Some (SubEliminateNegative res (headroom c)) else None))"
    by (simp add: initHeadroomShortages_def init_loop_value)
  show "\<forall>p v. map_of (initHeadroomShortages q res) p = Some v \<longrightarrow>
      (\<forall>k. 0 \<le> quantity v k) \<and> (\<exists>k. 0 < quantity v k)"
  proof (intro allI impI)
    fix p v
    assume "map_of (initHeadroomShortages q res) p = Some v"
    then have "map_of (initHeadroomShortages_loop q res []) p = Some v"
      by (simp add: initHeadroomShortages_def)
    from init_loop_values_short [OF _ this] obtain c where
      v: "v = SubEliminateNegative res (headroom c)" and "\<exists>k. quantity (headroom c) k < quantity res k"
      by auto
    then obtain k where "quantity (headroom c) k < quantity res k" by blast
    then have "0 < quantity v k" by (simp add: v)
    then show "(\<forall>k. 0 \<le> quantity v k) \<and> (\<exists>k. 0 < quantity v k)"
      by (auto simp: v)
  qed
  show "\<forall>c k. quantity (SubEliminateNegative res (headroom c)) k =
      max 0 (quantity res k -
        (quantity (pqc_max c) k - quantity (GetAllocatingResource c) k +
         quantity (markedPreemptedResource c) k))"
    by (simp add: quantity_headroom)
qed

lemma ancestors_b1: "ancestors (Some pq_b1) = [pq_b1, pq_b, pq_root]"
  by (simp add: pq_b1_def pq_b_def pq_root_def)

lemma headroom_example:
  "\<not> (\<exists>k. quantity (headroom pq_b1) k < quantity [(''memory'', 100)] k)"
  "\<exists>k. quantity (headroom pq_b) k < quantity [(''memory'', 100)] k"
  "\<not> (\<exists>k. quantity (headroom pq_root) k < quantity [(''memory'', 100)] k)"
proof -
  show "\<not> (\<exists>k. quantity (headroom pq_b1) k < quantity [(''memory'', 100)] k)"
    by (simp add: quantity_headroom pq_b1_def) (simp add: quantity_def)
  have "quantity (headroom pq_b) ''memory'' < quantity [(''memory'', 100)] ''memory''"
    by (simp add: quantity_headroom pq_b_def) (simp add: quantity_def)
  then show "\<exists>k. quantity (headroom pq_b) k < quantity [(''memory'', 100)] k" ..
  show "\<not> (\<exists>k. quantity (headroom pq_root) k < quantity [(''memory'', 100)] k)"
    by (simp add: quantity_headroom pq_root_def) (simp add: quantity_def)
qed

lemma shortage_b: "SubEliminateNegative [(''memory'', 100)] (headroom pq_b) = [(''memory'', 100)]"
  by (simp add: SubEliminateNegative_def headroom_def Add_def Sub_def componentwise_def keys2_def
      quantity_def pq_b_def)

text \<open>The theorem on the example tree, for an ask of 100 of memory in \<open>root.b.b1\<close>: only
  \<open>root.b\<close> is short, by 100.\<close>

theorem initHeadroomShortages_exact_witness:
  "distinct (map queuePath (ancestors (Some pq_b1))) \<and>
   fst ` set (initHeadroomShortages (Some pq_b1) [(''memory'', 100)]) = {''root.b''} \<and>
   map_of (initHeadroomShortages (Some pq_b1) [(''memory'', 100)]) ''root.b'' = Some [(''memory'', 100)] \<and>
   map_of (initHeadroomShortages (Some pq_b1) [(''memory'', 100)]) ''root.b.b1'' = None \<and>
   map_of (initHeadroomShortages (Some pq_b1) [(''memory'', 100)]) ''root'' = None"
proof -
  have d: "distinct (map queuePath (ancestors (Some pq_b1)))"
    by (simp add: ancestors_b1) (simp add: pq_b1_def pq_b_def pq_root_def)
  note exact = initHeadroomShortages_exact [of "Some pq_b1" "[(''memory'', 100)]"]
  from exact have keys: "fst ` set (initHeadroomShortages (Some pq_b1) [(''memory'', 100)]) =
     {queuePath c |c. c \<in> set (ancestors (Some pq_b1)) \<and>
        (\<exists>k. quantity (headroom c) k < quantity [(''memory'', 100)] k)}"
    by blast
  have "{queuePath c |c. c \<in> set (ancestors (Some pq_b1)) \<and>
        (\<exists>k. quantity (headroom c) k < quantity [(''memory'', 100)] k)} = {queuePath pq_b}"
    unfolding ancestors_b1 using headroom_example by auto
  with keys have k: "fst ` set (initHeadroomShortages (Some pq_b1) [(''memory'', 100)]) = {''root.b''}"
    by (simp add: pq_b_def)
  from exact d have vals: "\<forall>c \<in> set [pq_b1, pq_b, pq_root].
         map_of (initHeadroomShortages (Some pq_b1) [(''memory'', 100)]) (queuePath c) =
           (if \<exists>k. quantity (headroom c) k < quantity [(''memory'', 100)] k
            then Some (SubEliminateNegative [(''memory'', 100)] (headroom c)) else None)"
    unfolding ancestors_b1 by blast
  from vals have b: "map_of (initHeadroomShortages (Some pq_b1) [(''memory'', 100)]) (queuePath pq_b) =
      Some [(''memory'', 100)]"
    using headroom_example(2) by (simp add: shortage_b)
  from vals have b1: "map_of (initHeadroomShortages (Some pq_b1) [(''memory'', 100)]) (queuePath pq_b1) = None"
    using headroom_example(1) by simp
  from vals have r: "map_of (initHeadroomShortages (Some pq_b1) [(''memory'', 100)]) (queuePath pq_root) = None"
    using headroom_example(3) by simp
  from d k b b1 r show ?thesis
    by (simp add: pq_b1_def pq_b_def pq_root_def)
qed

section \<open>Surgical preemption on a node\<close>

lemma released_Cons: "released (a # vs) start = released vs (Add start (AllocationResource a))"
  by (simp add: released_def)

lemma loop_skip:
  "\<not> preemption_victim ctx candidate alloc \<Longrightarrow>
   trySurgicalPreemptionOnNode_loop ctx pq n candidate tp (alloc # rest) hs rel tot =
   trySurgicalPreemptionOnNode_loop ctx pq n candidate tp rest hs rel tot"
  by (auto simp: preemption_victim_def Let_def split: option.splits)

lemma loop_take:
  "preemption_victim ctx candidate alloc \<Longrightarrow>
   trySurgicalPreemptionOnNode_loop ctx pq n candidate tp (alloc # rest) hs rel tot =
   (let hs' = snd (headroomShortageUpdate pq (leafQueues ctx (AllocationQueueName alloc))
                     (AllocationResource alloc) hs);
        rel' = AList.update (AllocationUuid alloc) alloc rel;
        tot' = Add tot (AllocationResource alloc)
    in if StrictlyGreaterThanOrEquals tot' tp
       then (Some \<lparr>node = n, toReleaseAllocations = rel', totalReleasedResource = tot'\<rparr>, hs')
       else trySurgicalPreemptionOnNode_loop ctx pq n candidate tp rest hs' rel' tot')"
  by (auto simp: preemption_victim_def Let_def split: option.splits)

declare trySurgicalPreemptionOnNode_loop.simps(2) [simp del]

lemma loop_Some:
  "fst (trySurgicalPreemptionOnNode_loop ctx pq n candidate tp allocs hs rel tot) = Some r \<Longrightarrow>
   \<exists>m. 0 < m \<and> m \<le> length (filter (preemption_victim ctx candidate) allocs) \<and>
       totalReleasedResource r = released (take m (filter (preemption_victim ctx candidate) allocs)) tot \<and>
       StrictlyGreaterThanOrEquals (totalReleasedResource r) tp"
proof (induction allocs arbitrary: hs rel tot)
  case Nil
  then show ?case by simp
next
  case (Cons alloc rest)
  show ?case
  proof (cases "preemption_victim ctx candidate alloc")
    case False
    with Cons.prems have "fst (trySurgicalPreemptionOnNode_loop ctx pq n candidate tp rest hs rel tot) = Some r"
      by (simp add: loop_skip)
    from Cons.IH [OF this] False show ?thesis by simp
  next
    case True
    let ?tot = "Add tot (AllocationResource alloc)"
    show ?thesis
    proof (cases "StrictlyGreaterThanOrEquals ?tot tp")
      case enough: True
      with Cons.prems True have "totalReleasedResource r = ?tot"
        by (auto simp: loop_take Let_def)
      with enough True show ?thesis
        by (intro exI [of _ 1]) (simp add: released_def)
    next
      case more: False
      with Cons.prems True obtain hs' rel' where
        "fst (trySurgicalPreemptionOnNode_loop ctx pq n candidate tp rest hs' rel' ?tot) = Some r"
        by (auto simp: loop_take Let_def)
      from Cons.IH [OF this] obtain m where
        m: "0 < m" "m \<le> length (filter (preemption_victim ctx candidate) rest)"
           "totalReleasedResource r = released (take m (filter (preemption_victim ctx candidate) rest)) ?tot"
           "StrictlyGreaterThanOrEquals (totalReleasedResource r) tp"
        by blast
      with True show ?thesis
        by (intro exI [of _ "Suc m"]) (simp add: released_Cons)
    qed
  qed
qed

lemma loop_None:
  "(\<And>m. 0 < m \<Longrightarrow> m \<le> length (filter (preemption_victim ctx candidate) allocs) \<Longrightarrow>
      \<not> StrictlyGreaterThanOrEquals (released (take m (filter (preemption_victim ctx candidate) allocs)) tot) tp) \<Longrightarrow>
   fst (trySurgicalPreemptionOnNode_loop ctx pq n candidate tp allocs hs rel tot) = None"
proof (induction allocs arbitrary: hs rel tot)
  case Nil
  then show ?case by simp
next
  case (Cons alloc rest)
  show ?case
  proof (cases "preemption_victim ctx candidate alloc")
    case False
    with Cons.prems have "\<And>m. 0 < m \<Longrightarrow> m \<le> length (filter (preemption_victim ctx candidate) rest) \<Longrightarrow>
      \<not> StrictlyGreaterThanOrEquals (released (take m (filter (preemption_victim ctx candidate) rest)) tot) tp"
      by simp
    from Cons.IH [OF this] False show ?thesis
      by (simp add: loop_skip)
  next
    case True
    let ?tot = "Add tot (AllocationResource alloc)"
    from Cons.prems [of 1] True have first: "\<not> StrictlyGreaterThanOrEquals ?tot tp"
      by (simp add: released_def)
    have "\<not> StrictlyGreaterThanOrEquals (released (take m (filter (preemption_victim ctx candidate) rest)) ?tot) tp"
      if "0 < m" "m \<le> length (filter (preemption_victim ctx candidate) rest)" for m
      using Cons.prems [of "Suc m"] that True by (simp add: released_Cons)
    from Cons.IH [OF this] first True show ?thesis
      by (simp add: loop_take Let_def)
  qed
qed

lemma loop_shortages_irrelevant:
  "fst (trySurgicalPreemptionOnNode_loop ctx pq n candidate tp allocs hs rel tot) =
   fst (trySurgicalPreemptionOnNode_loop ctx pq n candidate tp allocs hs' rel tot)"
proof (induction allocs arbitrary: hs hs' rel tot)
  case Nil
  then show ?case by simp
next
  case (Cons alloc rest)
  show ?case
  proof (cases "preemption_victim ctx candidate alloc")
    case False
    then show ?thesis
      using Cons.IH [of hs rel tot hs'] by (simp add: loop_skip)
  next
    case True
    let ?u = "\<lambda>h. snd (headroomShortageUpdate pq (leafQueues ctx (AllocationQueueName alloc))
                     (AllocationResource alloc) h)"
    from True show ?thesis
      using Cons.IH [of "?u hs" "AList.update (AllocationUuid alloc) alloc rel"
          "Add tot (AllocationResource alloc)" "?u hs'"]
      by (simp add: loop_take Let_def)
  qed
qed

lemma try_shortages_irrelevant:
  "fst (trySurgicalPreemptionOnNode check ctx pq n candidate hs) =
   fst (trySurgicalPreemptionOnNode check ctx pq n candidate hs')"
  using loop_shortages_irrelevant [of ctx pq _ candidate _ _ hs _ _ hs']
  by (simp add: trySurgicalPreemptionOnNode_def Let_def split: prod.splits)

lemma cross_loop_None:
  "(\<And>n. n \<in> set nodes \<Longrightarrow> \<exists>hs. fst (trySurgicalPreemptionOnNode check ctx pq n candidate hs) = None) \<Longrightarrow>
   fst (crossQueuePreemptionAllocate_loop check ctx pq nodes candidate hs0) = None"
proof (induction nodes arbitrary: hs0)
  case Nil
  then show ?case by simp
next
  case (Cons n nodes)
  from Cons.prems [of n] obtain hs where "fst (trySurgicalPreemptionOnNode check ctx pq n candidate hs) = None"
    by auto
  then have "fst (trySurgicalPreemptionOnNode check ctx pq n candidate hs0) = None"
    using try_shortages_irrelevant [of check ctx pq n candidate hs0 hs] by simp
  moreover have "fst (crossQueuePreemptionAllocate_loop check ctx pq nodes candidate h) = None" for h
    using Cons.IH Cons.prems by simp
  ultimately show ?case
    by (auto split: prod.splits option.splits)
qed

lemma quantity_resourceToPreempt:
  "quantity (resourceToPreempt n candidate) k =
     max 0 (quantity (AllocatingResource n) k + quantity (AllocatedResource candidate) k -
            quantity (PreemptingResource n) k - quantity (CachedAvailableResource n) k)"
  by (simp add: resourceToPreempt_def max.commute)

text \<open>
  Claim C7: when \<open>trySurgicalPreemptionOnNode\<close> returns a result, either the node check
  accepted the ask, and the result releases nothing, or the check refused it, the total
  of the result is the resource of the first victims of the node up to some victim,
  and that total is at least max 0 (allocating + ask - preempting - available) in every
  component. When the check refuses the ask and no run of first victims reaches the
  resource to preempt, the function returns nil. \<open>crossQueuePreemptionAllocate\<close> returns
  nil when every node returns nil, and when there is no partition context.
\<close>

theorem surgical_preemption_result:
  "(\<forall>r. fst (trySurgicalPreemptionOnNode check ctx pq n candidate hs) = Some r \<longrightarrow>
      (fst (check n (AllocatedResource candidate) True) \<and>
         toReleaseAllocations r = [] \<and> totalReleasedResource r = Zero) \<or>
      (\<not> fst (check n (AllocatedResource candidate) True) \<and>
         (\<exists>m. 0 < m \<and>
            m \<le> length (filter (preemption_victim ctx candidate)
                           (GetAllAllocations (snd (check n (AllocatedResource candidate) True)))) \<and>
            totalReleasedResource r =
              released (take m (filter (preemption_victim ctx candidate)
                           (GetAllAllocations (snd (check n (AllocatedResource candidate) True)))))
                NewResource) \<and>
         (\<forall>k. max 0 (quantity (AllocatingResource n) k + quantity (AllocatedResource candidate) k -
                      quantity (PreemptingResource n) k - quantity (CachedAvailableResource n) k)
               \<le> quantity (totalReleasedResource r) k))) \<and>
   (\<not> fst (check n (AllocatedResource candidate) True) \<and>
    (\<forall>m. 0 < m \<and>
       m \<le> length (filter (preemption_victim ctx candidate)
                      (GetAllAllocations (snd (check n (AllocatedResource candidate) True)))) \<longrightarrow>
       \<not> StrictlyGreaterThanOrEquals
           (released (take m (filter (preemption_victim ctx candidate)
                      (GetAllAllocations (snd (check n (AllocatedResource candidate) True)))))
              NewResource)
           (resourceToPreempt n candidate)) \<longrightarrow>
    fst (trySurgicalPreemptionOnNode check ctx pq n candidate hs) = None) \<and>
   ((\<forall>nd \<in> set nodes. \<exists>h. fst (trySurgicalPreemptionOnNode check ctx pq nd candidate h) = None) \<and>
    leafQueues ctx (QueueName candidate) = Some pq \<longrightarrow>
    crossQueuePreemptionAllocate check (Some ctx) nodes candidate = None) \<and>
   crossQueuePreemptionAllocate check None nodes candidate = None"
proof (intro conjI allI impI)
  fix r
  assume some: "fst (trySurgicalPreemptionOnNode check ctx pq n candidate hs) = Some r"
  obtain fits n' where c: "check n (AllocatedResource candidate) True = (fits, n')"
    by (cases "check n (AllocatedResource candidate) True")
  show "(fst (check n (AllocatedResource candidate) True) \<and>
         toReleaseAllocations r = [] \<and> totalReleasedResource r = Zero) \<or>
      (\<not> fst (check n (AllocatedResource candidate) True) \<and>
         (\<exists>m. 0 < m \<and>
            m \<le> length (filter (preemption_victim ctx candidate)
                           (GetAllAllocations (snd (check n (AllocatedResource candidate) True)))) \<and>
            totalReleasedResource r =
              released (take m (filter (preemption_victim ctx candidate)
                           (GetAllAllocations (snd (check n (AllocatedResource candidate) True)))))
                NewResource) \<and>
         (\<forall>k. max 0 (quantity (AllocatingResource n) k + quantity (AllocatedResource candidate) k -
                      quantity (PreemptingResource n) k - quantity (CachedAvailableResource n) k)
               \<le> quantity (totalReleasedResource r) k))"
  proof (cases fits)
    case True
    with some c show ?thesis
      by (auto simp: trySurgicalPreemptionOnNode_def)
  next
    case False
    with some c have "fst (trySurgicalPreemptionOnNode_loop ctx pq n' candidate (resourceToPreempt n candidate)
        (GetAllAllocations n') hs [] NewResource) = Some r"
      by (simp add: trySurgicalPreemptionOnNode_def)
    from loop_Some [OF this] obtain m where
      m: "0 < m" "m \<le> length (filter (preemption_victim ctx candidate) (GetAllAllocations n'))"
         "totalReleasedResource r = released (take m (filter (preemption_victim ctx candidate) (GetAllAllocations n'))) NewResource"
      and ge: "StrictlyGreaterThanOrEquals (totalReleasedResource r) (resourceToPreempt n candidate)"
      by blast
    from ge have "\<forall>k. quantity (resourceToPreempt n candidate) k \<le> quantity (totalReleasedResource r) k"
      by (simp add: StrictlyGreaterThanOrEquals_iff)
    then have "\<forall>k. max 0 (quantity (AllocatingResource n) k + quantity (AllocatedResource candidate) k -
                      quantity (PreemptingResource n) k - quantity (CachedAvailableResource n) k)
               \<le> quantity (totalReleasedResource r) k"
      by (simp add: quantity_resourceToPreempt)
    with m False c show ?thesis
      by auto
  qed
next
  assume a: "\<not> fst (check n (AllocatedResource candidate) True) \<and>
    (\<forall>m. 0 < m \<and>
       m \<le> length (filter (preemption_victim ctx candidate)
                      (GetAllAllocations (snd (check n (AllocatedResource candidate) True)))) \<longrightarrow>
       \<not> StrictlyGreaterThanOrEquals
           (released (take m (filter (preemption_victim ctx candidate)
                      (GetAllAllocations (snd (check n (AllocatedResource candidate) True)))))
              NewResource)
           (resourceToPreempt n candidate))"
  obtain fits n' where c: "check n (AllocatedResource candidate) True = (fits, n')"
    by (cases "check n (AllocatedResource candidate) True")
  from a c have nofit: "\<not> fits" by simp
  from a c have "fst (trySurgicalPreemptionOnNode_loop ctx pq n' candidate (resourceToPreempt n candidate)
        (GetAllAllocations n') hs [] NewResource) = None"
    by (intro loop_None) simp
  with c nofit show "fst (trySurgicalPreemptionOnNode check ctx pq n candidate hs) = None"
    by (simp add: trySurgicalPreemptionOnNode_def)
next
  assume a: "(\<forall>nd \<in> set nodes. \<exists>h. fst (trySurgicalPreemptionOnNode check ctx pq nd candidate h) = None) \<and>
    leafQueues ctx (QueueName candidate) = Some pq"
  then have "fst (crossQueuePreemptionAllocate_loop check ctx pq nodes candidate h0) = None" for h0
    by (intro cross_loop_None) simp
  with a show "crossQueuePreemptionAllocate check (Some ctx) nodes candidate = None"
    by (simp add: crossQueuePreemptionAllocate_def Let_def)
next
  show "crossQueuePreemptionAllocate check None nodes candidate = None"
    by (simp add: crossQueuePreemptionAllocate_def)
qed

lemma victim_c: "preemption_victim example_ctx candidate_b1 alloc_c"
  by (simp add: preemption_victim_def example_ctx_def alloc_c_def pq_c_def candidate_b1_def ask_with_def
      Comp_def CompFairnessRatio_def keys2_def share_def SubEliminateNegative_def componentwise_def
      quantity_def Zero_def)

lemma victim_small: "preemption_victim example_ctx candidate_b1 alloc_small"
  by (simp add: preemption_victim_def example_ctx_def alloc_small_def pq_c_def candidate_b1_def
      ask_with_def Comp_def CompFairnessRatio_def keys2_def share_def SubEliminateNegative_def
      componentwise_def quantity_def Zero_def)

lemma no_fit:
  "fit_check node_1 (AllocatedResource candidate_b1) True = (False, node_1)"
  "fit_check node_3 (AllocatedResource candidate_b1) True = (False, node_3)"
  "fit_check node_2 (AllocatedResource candidate_b1) True = (False, node_2)"
  by (simp_all add: fit_check_def node_1_def node_2_def node_3_def candidate_b1_def ask_with_def
      StrictlyGreaterThanOrEquals_def Add_def componentwise_def keys2_def quantity_def)

lemma toPreempt_example:
  "resourceToPreempt node_1 candidate_b1 = [(''memory'', 100)]"
  "resourceToPreempt node_3 candidate_b1 = [(''memory'', 100)]"
  by (simp_all add: resourceToPreempt_def node_1_def node_3_def candidate_b1_def ask_with_def
      ComponentWiseMax_def Add_def Sub_def componentwise_def keys2_def quantity_def Zero_def)

lemma try_node_1:
  "fst (trySurgicalPreemptionOnNode fit_check example_ctx pq_b1 node_1 candidate_b1 hs) =
     Some \<lparr>node = node_1, toReleaseAllocations = [(''uuid-1'', alloc_c)],
           totalReleasedResource = [(''memory'', 100)]\<rparr>"
proof -
  have ge: "StrictlyGreaterThanOrEquals (Add NewResource (AllocationResource alloc_c)) [(''memory'', 100)]"
    by (simp add: StrictlyGreaterThanOrEquals_def Add_def componentwise_def keys2_def quantity_def
        NewResource_def alloc_c_def)
  have tot: "Add NewResource (AllocationResource alloc_c) = [(''memory'', 100)]"
    by (simp add: Add_def componentwise_def keys2_def quantity_def NewResource_def alloc_c_def)
  have allocs: "GetAllAllocations node_1 = [alloc_c]"
    by (simp add: node_1_def)
  have uuid: "AllocationUuid alloc_c = ''uuid-1''"
    by (simp add: alloc_c_def)
  show ?thesis
    using ge by (simp add: trySurgicalPreemptionOnNode_def no_fit toPreempt_example allocs
        loop_take [OF victim_c] Let_def tot uuid)
qed

text \<open>The theorem on the example: the first node yields a victim set that covers the
  resource to preempt, the third node holds a victim that is too small, and a list of
  nodes of which none yields a result makes \<open>crossQueuePreemptionAllocate\<close> return nil.\<close>

theorem surgical_preemption_result_witness:
  "(\<exists>r. fst (trySurgicalPreemptionOnNode fit_check example_ctx pq_b1 node_1 candidate_b1 []) = Some r \<and>
        \<not> fst (fit_check node_1 (AllocatedResource candidate_b1) True) \<and>
        (\<forall>k. quantity (resourceToPreempt node_1 candidate_b1) k \<le> quantity (totalReleasedResource r) k)) \<and>
   fst (trySurgicalPreemptionOnNode fit_check example_ctx pq_b1 node_3 candidate_b1 []) = None \<and>
   crossQueuePreemptionAllocate fit_check (Some example_ctx) [node_3, node_2] candidate_b1 = None"
proof -
  note res = surgical_preemption_result [of fit_check example_ctx pq_b1 _ candidate_b1 "[]"]
  have 1: "\<exists>r. fst (trySurgicalPreemptionOnNode fit_check example_ctx pq_b1 node_1 candidate_b1 []) = Some r \<and>
        \<not> fst (fit_check node_1 (AllocatedResource candidate_b1) True) \<and>
        (\<forall>k. quantity (resourceToPreempt node_1 candidate_b1) k \<le> quantity (totalReleasedResource r) k)"
    using res [of node_1 "[]"] try_node_1 [of "[]"]
    by (simp add: no_fit quantity_resourceToPreempt)
  have allocs3: "GetAllAllocations node_3 = [alloc_small]" and allocs2: "GetAllAllocations node_2 = []"
    by (simp_all add: node_3_def node_2_def)
  have short: "\<not> StrictlyGreaterThanOrEquals (released [alloc_small] NewResource) [(''memory'', 100)]"
    by (simp add: StrictlyGreaterThanOrEquals_def released_def Add_def componentwise_def keys2_def
        quantity_def NewResource_def alloc_small_def)
  have hyp3: "\<forall>m. 0 < m \<and>
       m \<le> length (filter (preemption_victim example_ctx candidate_b1)
                      (GetAllAllocations (snd (fit_check node_3 (AllocatedResource candidate_b1) True)))) \<longrightarrow>
       \<not> StrictlyGreaterThanOrEquals
           (released (take m (filter (preemption_victim example_ctx candidate_b1)
                      (GetAllAllocations (snd (fit_check node_3 (AllocatedResource candidate_b1) True)))))
              NewResource)
           (resourceToPreempt node_3 candidate_b1)"
  proof (intro allI impI)
    fix m
    assume "0 < m \<and>
       m \<le> length (filter (preemption_victim example_ctx candidate_b1)
                      (GetAllAllocations (snd (fit_check node_3 (AllocatedResource candidate_b1) True))))"
    then have "m = 1"
      by (simp add: no_fit allocs3 victim_small)
    with short show "\<not> StrictlyGreaterThanOrEquals
           (released (take m (filter (preemption_victim example_ctx candidate_b1)
                      (GetAllAllocations (snd (fit_check node_3 (AllocatedResource candidate_b1) True)))))
              NewResource)
           (resourceToPreempt node_3 candidate_b1)"
      by (simp add: no_fit allocs3 victim_small toPreempt_example)
  qed
  have 3: "fst (trySurgicalPreemptionOnNode fit_check example_ctx pq_b1 node_3 candidate_b1 h) = None" for h
    using surgical_preemption_result [of fit_check example_ctx pq_b1 node_3 candidate_b1 h "[]"] hyp3
    by (simp add: no_fit)
  have hyp2: "\<forall>m. 0 < m \<and>
       m \<le> length (filter (preemption_victim example_ctx candidate_b1)
                      (GetAllAllocations (snd (fit_check node_2 (AllocatedResource candidate_b1) True)))) \<longrightarrow>
       \<not> StrictlyGreaterThanOrEquals
           (released (take m (filter (preemption_victim example_ctx candidate_b1)
                      (GetAllAllocations (snd (fit_check node_2 (AllocatedResource candidate_b1) True)))))
              NewResource)
           (resourceToPreempt node_2 candidate_b1)"
    by (simp add: no_fit allocs2)
  have 2: "fst (trySurgicalPreemptionOnNode fit_check example_ctx pq_b1 node_2 candidate_b1 h) = None" for h
    using surgical_preemption_result [of fit_check example_ctx pq_b1 node_2 candidate_b1 h "[]"] hyp2
    by (simp add: no_fit)
  have leaf: "leafQueues example_ctx (QueueName candidate_b1) = Some pq_b1"
    by (simp add: example_ctx_def candidate_b1_def)
  have all: "\<forall>nd \<in> set [node_3, node_2]. \<exists>h. fst (trySurgicalPreemptionOnNode fit_check example_ctx pq_b1 nd candidate_b1 h) = None"
    using 2 3 by simp
  have 4: "crossQueuePreemptionAllocate fit_check (Some example_ctx) [node_3, node_2] candidate_b1 = None"
    using res [of node_3 "[node_3, node_2]"] all leaf by blast
  from 1 3 [of "[]"] 4 show ?thesis by blast
qed

text \<open>
  Claim C1 says that an allocation joins the victims only if crediting its resource
  makes a headroom shortage of the preemptor strictly smaller, that is, only if
  \<open>headroomShortageUpdate\<close> returns true. The source calls \<open>headroomShortageUpdate\<close> and
  drops its result. In the tree of the source's own comment the ask of \<open>root.b.b1\<close> is
  short of headroom at \<open>root.b\<close> only; the allocation of \<open>root.c\<close> on the first node
  credits nothing to \<open>root.b\<close>, \<open>headroomShortageUpdate\<close> returns false and leaves the map
  as it was, and the allocation is released all the same.
\<close>

theorem victim_without_contribution:
  "initHeadroomShortages (Some pq_b1) (AllocatedResource candidate_b1) = [(''root.b'', [(''memory'', 100)])] \<and>
   headroomShortageUpdate pq_b1 (Some pq_c) (AllocationResource alloc_c) [(''root.b'', [(''memory'', 100)])] =
     (False, [(''root.b'', [(''memory'', 100)])]) \<and>
   fst (trySurgicalPreemptionOnNode fit_check example_ctx pq_b1 node_1 candidate_b1
          [(''root.b'', [(''memory'', 100)])]) =
     Some \<lparr>node = node_1, toReleaseAllocations = [(''uuid-1'', alloc_c)],
           totalReleasedResource = [(''memory'', 100)]\<rparr>"
proof (intro conjI)
  show "initHeadroomShortages (Some pq_b1) (AllocatedResource candidate_b1) = [(''root.b'', [(''memory'', 100)])]"
    by (simp add: initHeadroomShortages_def pq_b1_def pq_b_def pq_root_def candidate_b1_def ask_with_def
        Let_def headroom_def StrictlyGreaterThanZero_def SubEliminateNegative_def Add_def Sub_def
        componentwise_def keys2_def quantity_def)
  show "headroomShortageUpdate pq_b1 (Some pq_c) (AllocationResource alloc_c) [(''root.b'', [(''memory'', 100)])] =
     (False, [(''root.b'', [(''memory'', 100)])])"
    by (simp add: headroomShortageUpdate_def pq_c_def pq_root_def)
  show "fst (trySurgicalPreemptionOnNode fit_check example_ctx pq_b1 node_1 candidate_b1
          [(''root.b'', [(''memory'', 100)])]) =
     Some \<lparr>node = node_1, toReleaseAllocations = [(''uuid-1'', alloc_c)],
           totalReleasedResource = [(''memory'', 100)]\<rparr>"
    by (rule try_node_1)
qed

section \<open>Stopping the partition manager\<close>

lemma step_keeps_receiver:
  "\<not> stop (run_receiver w) \<Longrightarrow> \<not> run_returned w \<Longrightarrow>
   \<not> stop (run_receiver (step w e)) \<and> \<not> run_returned (step w e)"
  by (cases e) (auto simp: Let_def)

lemma run_events_keeps_receiver:
  "\<not> stop (run_receiver w) \<Longrightarrow> \<not> run_returned w \<Longrightarrow>
   \<not> stop (run_receiver (run_events w evs)) \<and> \<not> run_returned (run_events w evs)"
  unfolding run_events_def
  by (induction evs arbitrary: w) (simp_all add: step_keeps_receiver)

text \<open>
  Claim C3 says that after a stop request \<open>Run\<close> sees the flag at its next tick, leaves
  the loop and removes the partition. \<open>Stop\<close> and \<open>Run\<close> have value receivers: \<open>Stop\<close>
  sets the flag of its own copy, which leaves the struct of the partition as it was, and
  the write of \<open>RemoveSchedulingPartitionsByRMId\<close> reaches that struct and not the copy
  that \<open>Run\<close> tests. Whatever stop requests and ticks follow the start of the manager,
  \<open>Run\<close> does not return.
\<close>

theorem Run_never_returns:
  "\<not> run_returned (run_events (updateSchedulingPartitions name) evs) \<and>
   stop (manager_struct (step (updateSchedulingPartitions name) DeleteSchedulingPartitions)) = False \<and>
   stop (manager_struct (step (updateSchedulingPartitions name) RemoveSchedulingPartitionsByRMId)) = True \<and>
   run_returned (run_events (updateSchedulingPartitions name)
      [DeleteSchedulingPartitions, Tick, RemoveSchedulingPartitionsByRMId, Tick]) = False"
proof -
  have "\<not> stop (run_receiver (updateSchedulingPartitions name))"
    and "\<not> run_returned (updateSchedulingPartitions name)"
    by (simp_all add: updateSchedulingPartitions_def Run_start_def Let_def)
  from run_events_keeps_receiver [OF this]
  have "\<not> run_returned (run_events (updateSchedulingPartitions name) evs)" for evs
    by blast
  then show ?thesis
    by (simp add: updateSchedulingPartitions_def Let_def)
qed

end
